theory Spec2Isabelle
  imports Complex_Main "HOL-Library.AList"
begin

section \<open>Common conventions\<close>

text \<open>
  Python exceptions are values of the type \<open>error\<close>; a function that can raise returns
  \<open>error + 'a\<close>, with \<open>Inl\<close> for the exception. Floating-point numbers are modelled
  as real numbers (rounding and overflow are not modelled); the only source of a
  non-finite float that is modelled is a division by zero.
\<close>

datatype error =
  AssertionError | ValueError | KeyError | IndexError | ZeroDivisionError
  | RuntimeError | PipelineException

section \<open>DETR: the Hungarian matcher's constructor\<close>

text \<open>
  \<^verbatim>\<open>HungarianMatcher.__init__\<close> (modeling_detr.py) stores the three cost weights and
  asserts that they are not all zero.
\<close>

record HungarianMatcher =
  class_cost :: real
  bbox_cost :: real
  giou_cost :: real

definition HungarianMatcher_init :: "real \<Rightarrow> real \<Rightarrow> real \<Rightarrow> error + HungarianMatcher" where
  "HungarianMatcher_init c b g =
     (if c \<noteq> 0 \<or> b \<noteq> 0 \<or> g \<noteq> 0
      then Inr \<lparr>class_cost = c, bbox_cost = b, giou_cost = g\<rparr>
      else Inl AssertionError)"

section \<open>EnCodec: number of quantizers for a bandwidth\<close>





section \<open>DETR: bounding-box utilities\<close>

text \<open>
  A box in corner format is \<open>(x0, y0, x1, y1)\<close>. A float that may be non-finite is a
  \<open>real option\<close>: \<open>None\<close> stands for the \<open>nan\<close> or \<open>inf\<close> that a tensor division by
  zero produces (tensor division does not raise), and arithmetic on a non-finite value
  stays non-finite.
\<close>

type_synonym box = "real \<times> real \<times> real \<times> real"

definition tdiv :: "real \<Rightarrow> real \<Rightarrow> real option" where
  "tdiv a b = (if b = 0 then None else Some (a / b))"

definition tsub :: "real option \<Rightarrow> real option \<Rightarrow> real option" where
  "tsub a b = (case a of None \<Rightarrow> None | Some x \<Rightarrow> (case b of None \<Rightarrow> None | Some y \<Rightarrow> Some (x - y)))"

definition clamp_min :: "real \<Rightarrow> real \<Rightarrow> real" where
  "clamp_min x lo = max x lo"

text \<open>\<^verbatim>\<open>torchvision.ops.boxes.box_area\<close>: \<open>(x1 - x0) * (y1 - y0)\<close>.\<close>

fun box_area :: "box \<Rightarrow> real" where
  "box_area (x0, y0, x1, y1) = (x1 - x0) * (y1 - y0)"

text \<open>
  One entry of \<^verbatim>\<open>box_iou\<close>: the pair (iou, union) of a box of \<open>boxes1\<close> and a box of
  \<open>boxes2\<close>.
\<close>

fun box_iou1 :: "box \<Rightarrow> box \<Rightarrow> real option \<times> real" where
  "box_iou1 (a0, a1, a2, a3) (b0, b1, b2, b3) =
     (let area1 = box_area (a0, a1, a2, a3);
          area2 = box_area (b0, b1, b2, b3);
          lt0 = max a0 b0; lt1 = max a1 b1;
          rb0 = min a2 b2; rb1 = min a3 b3;
          wh0 = clamp_min (rb0 - lt0) 0; wh1 = clamp_min (rb1 - lt1) 0;
          inter = wh0 * wh1;
          union = area1 + area2 - inter
      in (tdiv inter union, union))"


text \<open>The early check of \<^verbatim>\<open>generalized_box_iou\<close>: \<^verbatim>\<open>boxes[:, 2:] >= boxes[:, :2]\<close>.\<close>

fun corners_ordered :: "box \<Rightarrow> bool" where
  "corners_ordered (x0, y0, x1, y1) = (x1 \<ge> x0 \<and> y1 \<ge> y0)"

text \<open>One entry of the matrix that \<^verbatim>\<open>generalized_box_iou\<close> returns.\<close>

fun giou1 :: "box \<Rightarrow> box \<Rightarrow> real option" where
  "giou1 (a0, a1, a2, a3) (b0, b1, b2, b3) =
     (let (iou, union) = box_iou1 (a0, a1, a2, a3) (b0, b1, b2, b3);
          lt0 = min a0 b0; lt1 = min a1 b1;
          rb0 = max a2 b2; rb1 = max a3 b3;
          wh0 = clamp_min (rb0 - lt0) 0; wh1 = clamp_min (rb1 - lt1) 0;
          area = wh0 * wh1
      in tsub iou (tdiv (area - union) area))"

definition generalized_box_iou :: "box list \<Rightarrow> box list \<Rightarrow> error + real option list list" where
  "generalized_box_iou boxes1 boxes2 =
     (if \<not> list_all corners_ordered boxes1 then Inl AssertionError
      else if \<not> list_all corners_ordered boxes2 then Inl AssertionError
      else Inr (map (\<lambda>a. map (\<lambda>b. giou1 a b) boxes2) boxes1))"

section \<open>EnCodec: the Euclidean codebook and dead-code expiry\<close>

text \<open>
  \<^verbatim>\<open>EuclideanCodebook\<close> (modeling_encodec.py): its configuration and its four buffers.
  A vector is a list of reals, a two-dimensional tensor a list of rows.
\<close>

type_synonym vec = "real list"

record EuclideanCodebook =
  decay :: real
  codebook_size :: nat
  kmeans_iters :: nat
  epsilon :: real
  threshold_ema_dead_code :: int
  inited :: bool
  cluster_size :: "real list"
  embed :: "vec list"
  embed_avg :: "vec list"

text \<open>
  The random source of \<^verbatim>\<open>sample_vectors\<close>: \<open>randperm n\<close> is the permutation that
  \<^verbatim>\<open>torch.randperm(n)\<close> draws, \<open>randint hi k\<close> the \<open>k\<close> indices that
  \<^verbatim>\<open>torch.randint(0, hi, (k,))\<close> draws.
\<close>

record rng =
  randperm :: "nat \<Rightarrow> nat list"
  randint :: "nat \<Rightarrow> nat \<Rightarrow> nat list"

text \<open>Indexing a tensor with a tensor of indices: an index out of range raises.\<close>

definition index_rows :: "'a list \<Rightarrow> nat list \<Rightarrow> error + 'a list" where
  "index_rows samples indices =
     (if list_all (\<lambda>i. i < length samples) indices
      then Inr (map (\<lambda>i. samples ! i) indices) else Inl IndexError)"

text \<open>
  \<^verbatim>\<open>sample_vectors\<close>. \<^verbatim>\<open>torch.randint(0, 0, ...)\<close> raises, which is the case of no
  samples and a positive \<open>num\<close>.
\<close>

definition sample_vectors :: "rng \<Rightarrow> vec list \<Rightarrow> nat \<Rightarrow> error + vec list" where
  "sample_vectors g samples num =
     (let num_samples = length samples in
      if num_samples \<ge> num then index_rows samples (take num (randperm g num_samples))
      else if num_samples = 0 then Inl RuntimeError
      else index_rows samples (randint g num_samples num))"

text \<open>
  \<^verbatim>\<open>replace_\<close> (a constant's name cannot end with an underscore here, so it is
  \<open>replace\<close>): \<^verbatim>\<open>torch.where(mask[..., None], sampled, self.embed)\<close> copied into
  \<open>embed\<close>. Operands whose shapes differ raise (the broadcasting of a dimension of
  size one is not modelled).
\<close>

definition replace :: "EuclideanCodebook \<Rightarrow> rng \<Rightarrow> vec list \<Rightarrow> bool list \<Rightarrow> error + EuclideanCodebook" where
  "replace cb g samples msk =
     (case sample_vectors g samples (codebook_size cb) of
        Inl e \<Rightarrow> Inl e
      | Inr sampled \<Rightarrow>
          if length sampled = length msk \<and> length (embed cb) = length msk
             \<and> map length sampled = map length (embed cb)
          then Inr (cb\<lparr>embed := map (\<lambda>(m, s, e). if m then s else e)
                                  (zip msk (zip sampled (embed cb)))\<rparr>)
          else Inl RuntimeError)"

text \<open>
  \<^verbatim>\<open>expire_codes_\<close>, named \<open>expire_codes\<close>. The batch has shape \<open>[b, n, d]\<close> and is flattened to
  \<open>[(b n), d]\<close> by \<^verbatim>\<open>rearrange(batch_samples, "... d -> (...) d")\<close>.
\<close>

definition expire_codes :: "EuclideanCodebook \<Rightarrow> rng \<Rightarrow> vec list list \<Rightarrow> error + EuclideanCodebook" where
  "expire_codes cb g batch_samples =
     (if threshold_ema_dead_code cb = 0 then Inr cb
      else
        let expired_codes = map (\<lambda>c. c < real_of_int (threshold_ema_dead_code cb)) (cluster_size cb) in
        if \<not> list_ex (\<lambda>b. b) expired_codes then Inr cb
        else replace cb g (concat batch_samples) expired_codes)"

text \<open>A codebook of two one-dimensional codes and a random source, for the examples.\<close>

definition codebook2 :: "int \<Rightarrow> EuclideanCodebook" where
  "codebook2 thr = \<lparr>decay = 99 / 100, codebook_size = 2, kmeans_iters = 10, epsilon = 1 / 100000,
     threshold_ema_dead_code = thr, inited = True, cluster_size = [0, 5],
     embed = [[1], [2]], embed_avg = [[1], [2]]\<rparr>"

definition rng0 :: rng where
  "rng0 = \<lparr>randperm = (\<lambda>n. rev [0..<n]), randint = (\<lambda>hi k. replicate k 0)\<rparr>"

section \<open>EnCodec: residual vector quantization\<close>

text \<open>
  Tensors of shape \<open>[b, n, d]\<close> are lists (batch) of lists (frames) of vectors. The
  quantizers receive \<open>[b, d, n]\<close> and \<^verbatim>\<open>VectorQuantization\<close> rearranges it to
  \<open>[b, n, d]\<close> on the way in and back on the way out; the two rearrangements are
  inverse to each other and the subtraction of the residual is elementwise, so the model
  keeps the layout \<open>[b, n, d]\<close> throughout.
\<close>

type_synonym tensor3 = "vec list list"

definition dot :: "vec \<Rightarrow> vec \<Rightarrow> real" where
  "dot a b = sum_list (map2 (*) a b)"

definition sum_sq :: "vec \<Rightarrow> real" where
  "sum_sq a = sum_list (map (\<lambda>x. x ^ 2) a)"

text \<open>
  The index of the first maximal element, as \<^verbatim>\<open>dist.max(dim=-1).indices\<close> returns it
  (which of several equal maxima is returned makes no difference to the distance).
\<close>

fun argmax :: "real list \<Rightarrow> nat" where
  "argmax [] = 0"
| "argmax [x] = 0"
| "argmax (x # y # ys) = (let j = argmax (y # ys) in if x \<ge> (y # ys) ! j then 0 else Suc j)"

text \<open>
  \<^verbatim>\<open>EuclideanCodebook.quantize\<close> on \<open>[(b n), d]\<close>: the negated squared distance in its
  expanded form, then the index of the maximum. A maximum over an empty codebook raises,
  and so does the matrix product when the dimensions differ.
\<close>

definition neg_dist :: "vec \<Rightarrow> vec \<Rightarrow> real" where
  "neg_dist x e = - (sum_sq x - 2 * dot x e + sum_sq e)"

definition quantize :: "EuclideanCodebook \<Rightarrow> vec list \<Rightarrow> error + nat list" where
  "quantize cb x =
     (if \<not> list_all (\<lambda>v. list_all (\<lambda>e. length e = length v) (embed cb)) x then Inl RuntimeError
      else if embed cb = [] then Inl IndexError
      else Inr (map (\<lambda>v. argmax (map (neg_dist v) (embed cb))) x))"

text \<open>\<^verbatim>\<open>postprocess_emb\<close>: the flat indices viewed in the shape \<open>[b, n]\<close> of the input.\<close>

fun unflatten :: "nat list \<Rightarrow> 'a list \<Rightarrow> 'a list list" where
  "unflatten [] xs = []"
| "unflatten (n # ns) xs = take n xs # unflatten ns (drop n xs)"

text \<open>\<^verbatim>\<open>dequantize\<close>: \<^verbatim>\<open>F.embedding(embed_ind, self.embed)\<close>; an index out of range raises.\<close>

definition dequantize :: "EuclideanCodebook \<Rightarrow> nat list list \<Rightarrow> error + tensor3" where
  "dequantize cb embed_ind =
     (if list_all (list_all (\<lambda>i. i < length (embed cb))) embed_ind
      then Inr (map (map (\<lambda>i. embed cb ! i)) embed_ind) else Inl IndexError)"

definition EuclideanCodebook_encode :: "EuclideanCodebook \<Rightarrow> tensor3 \<Rightarrow> error + nat list list" where
  "EuclideanCodebook_encode cb x =
     (case quantize cb (concat x) of
        Inl e \<Rightarrow> Inl e
      | Inr embed_ind \<Rightarrow> Inr (unflatten (map length x) embed_ind))"

definition EuclideanCodebook_decode :: "EuclideanCodebook \<Rightarrow> nat list list \<Rightarrow> error + tensor3" where
  "EuclideanCodebook_decode cb embed_ind = dequantize cb embed_ind"

text \<open>
  \<^verbatim>\<open>VectorQuantization\<close>: \<^verbatim>\<open>ResidualVectorQuantizer\<close> constructs its layers without a
  \<open>codebook_dim\<close>, so \<open>project_in\<close> and \<open>project_out\<close> are \<^verbatim>\<open>nn.Identity()\<close>, and
  encode and decode are those of the codebook.
\<close>

record VectorQuantization =
  commitment_weight :: real
  codebook :: EuclideanCodebook

definition VectorQuantization_encode :: "VectorQuantization \<Rightarrow> tensor3 \<Rightarrow> error + nat list list" where
  "VectorQuantization_encode layer x = EuclideanCodebook_encode (codebook layer) x"

definition VectorQuantization_decode :: "VectorQuantization \<Rightarrow> nat list list \<Rightarrow> error + tensor3" where
  "VectorQuantization_decode layer embed_ind = EuclideanCodebook_decode (codebook layer) embed_ind"

text \<open>
  Elementwise subtraction and addition of two tensors; operands of different shapes
  raise (the broadcasting of a dimension of size one is not modelled).
\<close>

definition shape :: "tensor3 \<Rightarrow> nat list list" where
  "shape t = map (map length) t"

definition tensor_sub :: "tensor3 \<Rightarrow> tensor3 \<Rightarrow> error + tensor3" where
  "tensor_sub a b =
     (if shape a = shape b then Inr (map2 (map2 (map2 (-))) a b) else Inl RuntimeError)"

definition tensor_add :: "tensor3 \<Rightarrow> tensor3 \<Rightarrow> error + tensor3" where
  "tensor_add a b =
     (if shape a = shape b then Inr (map2 (map2 (map2 (+))) a b) else Inl RuntimeError)"

text \<open>
  The loop of \<^verbatim>\<open>ResidualVectorQuantization.encode\<close> over the sliced layers; it returns
  the list \<open>all_indices\<close>.
\<close>

fun encode_loop :: "VectorQuantization list \<Rightarrow> tensor3 \<Rightarrow> error + nat list list list" where
  "encode_loop [] residual = Inr []"
| "encode_loop (layer # ls) residual =
     (case VectorQuantization_encode layer residual of
        Inl e \<Rightarrow> Inl e
      | Inr indices \<Rightarrow>
          (case VectorQuantization_decode layer indices of
             Inl e \<Rightarrow> Inl e
           | Inr quantized \<Rightarrow>
               (case tensor_sub residual quantized of
                  Inl e \<Rightarrow> Inl e
                | Inr residual' \<Rightarrow>
                    (case encode_loop ls residual' of
                       Inl e \<Rightarrow> Inl e
                     | Inr all_indices \<Rightarrow> Inr (indices # all_indices)))))"

text \<open>
  The slice \<^verbatim>\<open>xs[:k]\<close> of Python: the first \<open>k\<close> elements, or all but the last \<open>-k\<close>
  when \<open>k\<close> is negative.
\<close>

definition slice_to :: "'a list \<Rightarrow> int \<Rightarrow> 'a list" where
  "slice_to xs k = (if k \<ge> 0 then take (nat k) xs else take (nat (int (length xs) + k)) xs)"

record ResidualVectorQuantization =
  layers :: "VectorQuantization list"

text \<open>
  \<^verbatim>\<open>ResidualVectorQuantization.encode\<close>. \<^verbatim>\<open>n_q or len(self.layers)\<close> replaces
  \<^verbatim>\<open>None\<close> and 0 by the number of layers; \<^verbatim>\<open>torch.stack\<close> raises on an empty list.
\<close>

definition ResidualVectorQuantization_encode ::
  "ResidualVectorQuantization \<Rightarrow> tensor3 \<Rightarrow> int option \<Rightarrow> error + nat list list list" where
  "ResidualVectorQuantization_encode rvq x n_q_arg =
     (let n = (case n_q_arg of
                 None \<Rightarrow> int (length (layers rvq))
               | Some k \<Rightarrow> if k = 0 then int (length (layers rvq)) else k)
      in case encode_loop (slice_to (layers rvq) n) x of
           Inl e \<Rightarrow> Inl e
         | Inr all_indices \<Rightarrow> if all_indices = [] then Inl RuntimeError else Inr all_indices)"

text \<open>
  \<^verbatim>\<open>ResidualVectorQuantization.decode\<close>. The accumulator starts as the scalar tensor
  \<open>0.0\<close>, to which the first quantized tensor is added by broadcasting; it is still that
  scalar when there are no indices. \<open>decode_loop\<close> is the loop from position \<open>i\<close> of the
  enumeration on; \<^verbatim>\<open>self.layers[i]\<close> raises past the last layer.
\<close>

datatype quantized_out = Scalar_zero | Quantized tensor3

fun decode_loop ::
  "VectorQuantization list \<Rightarrow> nat \<Rightarrow> nat list list list \<Rightarrow> quantized_out \<Rightarrow> error + quantized_out" where
  "decode_loop ls i [] acc = Inr acc"
| "decode_loop ls i (indices # rest) acc =
     (if i \<ge> length ls then Inl IndexError
      else case VectorQuantization_decode (ls ! i) indices of
             Inl e \<Rightarrow> Inl e
           | Inr quantized \<Rightarrow>
               (case (case acc of
                        Scalar_zero \<Rightarrow> Inr quantized
                      | Quantized q \<Rightarrow> tensor_add q quantized) of
                  Inl e \<Rightarrow> Inl e
                | Inr q' \<Rightarrow> decode_loop ls (Suc i) rest (Quantized q')))"

definition ResidualVectorQuantization_decode ::
  "ResidualVectorQuantization \<Rightarrow> nat list list list \<Rightarrow> error + quantized_out" where
  "ResidualVectorQuantization_decode rvq q_indices = decode_loop (layers rvq) 0 q_indices Scalar_zero"


text \<open>Layers for the examples: one-dimensional codebooks given by their entries.\<close>

definition layer_of :: "vec list \<Rightarrow> VectorQuantization" where
  "layer_of es = \<lparr>commitment_weight = 1,
     codebook = \<lparr>decay = 99 / 100, codebook_size = length es, kmeans_iters = 50,
       epsilon = 1 / 100000, threshold_ema_dead_code = 2, inited = True,
       cluster_size = map (\<lambda>e. 0) es, embed = es, embed_avg = es\<rparr>\<rparr>"

text \<open>
  Well-formed shapes, which tensors have by construction: every codebook is a non-empty
  \<open>[codebook_size, d]\<close> tensor and the input a \<open>[b, n, d]\<close> tensor.
\<close>

definition wf_layer :: "nat \<Rightarrow> VectorQuantization \<Rightarrow> bool" where
  "wf_layer d l = (embed (codebook l) \<noteq> [] \<and> list_all (\<lambda>e. length e = d) (embed (codebook l)))"

definition wf_input :: "nat \<Rightarrow> tensor3 \<Rightarrow> bool" where
  "wf_input d x = list_all (list_all (\<lambda>v. length v = d)) x"

text \<open>
  What one stage does to one frame \<open>v\<close>: \<open>nearest\<close> is the index it stores, \<open>stage\<close> the
  residual it leaves. \<open>run_codes\<close> is the index stack of the stages, \<open>res\<close> the residual
  of a frame after them and \<open>acc_vec\<close> the sum that decoding accumulates for a frame.
\<close>

definition nearest :: "VectorQuantization \<Rightarrow> vec \<Rightarrow> nat" where
  "nearest l v = argmax (map (neg_dist v) (embed (codebook l)))"

definition stage :: "VectorQuantization \<Rightarrow> vec \<Rightarrow> vec" where
  "stage l v = map2 (-) v (embed (codebook l) ! nearest l v)"

fun run_codes :: "VectorQuantization list \<Rightarrow> tensor3 \<Rightarrow> nat list list list" where
  "run_codes [] t = []"
| "run_codes (l # ls) t = map (map (nearest l)) t # run_codes ls (map (map (stage l)) t)"


fun acc_vec :: "VectorQuantization list \<Rightarrow> vec \<Rightarrow> vec \<Rightarrow> vec" where
  "acc_vec [] a v = a"
| "acc_vec (l # ls) a v = acc_vec ls (map2 (+) a (embed (codebook l) ! nearest l v)) (stage l v)"

text \<open>Two quantizers for the examples; the second codebook has the single entry 10.\<close>

definition rvq2 :: ResidualVectorQuantization where
  "rvq2 = \<lparr>layers = [layer_of [[0], [4]], layer_of [[10]]]\<rparr>"




section \<open>DETR: the Hungarian matcher\<close>

text \<open>
  The model's outputs for one decoder layer, the dictionary with the keys \<open>logits\<close>
  (shape \<open>[batch_size, num_queries, num_classes]\<close>), \<open>pred_boxes\<close> (shape
  \<open>[batch_size, num_queries, 4]\<close>, boxes as \<open>(center_x, center_y, w, h)\<close>) and, for
  segmentation, \<open>pred_masks\<close>; and a target, the dictionary with the keys
  \<open>class_labels\<close> and \<open>boxes\<close>.
\<close>

record layer_outputs =
  logits :: "real list list list"
  pred_boxes :: "box list list"
  pred_masks :: "real list list list list option"

record target =
  class_labels :: "int list"
  boxes :: "box list"

text \<open>
  Modelled from the spec: \<^verbatim>\<open>center_to_corners_format\<close> is imported from
  feature_extraction_detr.py, which is not among the sources. It converts a box
  \<open>(center_x, center_y, w, h)\<close>, the format the docstring of \<^verbatim>\<open>loss_boxes\<close> names, into
  the corner format \<open>[x0, y0, x1, y1]\<close> that \<^verbatim>\<open>generalized_box_iou\<close> expects.
\<close>

fun center_to_corners_format :: "box \<Rightarrow> box" where
  "center_to_corners_format (cx, cy, w, h) = (cx - w / 2, cy - h / 2, cx + w / 2, cy + h / 2)"

text \<open>\<^verbatim>\<open>softmax(-1)\<close> of one row of logits.\<close>

definition softmax :: "real list \<Rightarrow> real list" where
  "softmax xs = map (\<lambda>x. exp x / sum_list (map exp xs)) xs"

text \<open>
  Indexing one dimension of a tensor with an integer: a negative index counts from the
  end. The callers check the range first, as the tensor library does.
\<close>

definition in_range :: "nat \<Rightarrow> int \<Rightarrow> bool" where
  "in_range n i = (- int n \<le> i \<and> i < int n)"

definition item :: "'a list \<Rightarrow> int \<Rightarrow> 'a" where
  "item xs i = (if i < 0 then xs ! nat (int (length xs) + i) else xs ! nat i)"

text \<open>One entry of \<^verbatim>\<open>torch.cdist(out_bbox, tgt_bbox, p=1)\<close>.\<close>

fun l1_dist :: "box \<Rightarrow> box \<Rightarrow> real" where
  "l1_dist (a0, a1, a2, a3) (b0, b1, b2, b3) = \<bar>a0 - b0\<bar> + \<bar>a1 - b1\<bar> + \<bar>a2 - b2\<bar> + \<bar>a3 - b3\<bar>"

text \<open>
  One entry of the final cost matrix
  \<^verbatim>\<open>self.bbox_cost * bbox_cost + self.class_cost * class_cost + self.giou_cost * giou_cost\<close>,
  where \<open>class_cost = -out_prob[:, tgt_ids]\<close> and \<open>giou_cost\<close> is the negated GIoU. A
  non-finite GIoU makes the entry non-finite.
\<close>

definition cost_entry ::
  "HungarianMatcher \<Rightarrow> real list \<Rightarrow> box \<Rightarrow> int \<Rightarrow> box \<Rightarrow> real option \<Rightarrow> real option" where
  "cost_entry m prob pbox tgt_id tbox giou =
     (case giou of
        None \<Rightarrow> None
      | Some g \<Rightarrow> Some (bbox_cost m * l1_dist pbox tbox + class_cost m * (- item prob tgt_id)
                        + giou_cost m * (- g)))"

definition cost_matrix ::
  "HungarianMatcher \<Rightarrow> real list list \<Rightarrow> box list \<Rightarrow> int list \<Rightarrow> box list
     \<Rightarrow> real option list list \<Rightarrow> real option list list" where
  "cost_matrix m out_prob out_bbox tgt_ids tgt_bbox giou =
     map (\<lambda>(prob, pbox, giou_row).
            map (\<lambda>(tgt_id, tbox, g). cost_entry m prob pbox tgt_id tbox g)
              (zip tgt_ids (zip tgt_bbox giou_row)))
       (zip out_prob (zip out_bbox giou))"

text \<open>
  \<^verbatim>\<open>[c[i] for i, c in enumerate(C.split(sizes, -1))]\<close> for \<open>C\<close> of shape
  \<open>[bs, num_queries, sum(sizes)]\<close>: the block of the queries of batch item \<open>i\<close> and the
  targets of batch item \<open>i\<close>.
\<close>

definition blocks :: "'a list list list \<Rightarrow> nat list \<Rightarrow> 'a list list list" where
  "blocks C sizes =
     map (\<lambda>i. map (\<lambda>row. take (sizes ! i) (drop (sum_list (take i sizes)) row)) (C ! i))
       [0..<length sizes]"

text \<open>Running a function that may raise over a list: the first exception ends the loop.\<close>

fun map_err :: "('a \<Rightarrow> error + 'b) \<Rightarrow> 'a list \<Rightarrow> error + 'b list" where
  "map_err f [] = Inr []"
| "map_err f (x # xs) =
     (case f x of
        Inl e \<Rightarrow> Inl e
      | Inr y \<Rightarrow> (case map_err f xs of Inl e \<Rightarrow> Inl e | Inr ys \<Rightarrow> Inr (y # ys)))"

text \<open>
  \<^verbatim>\<open>HungarianMatcher.forward\<close>. \<open>linear_sum_assignment\<close> is SciPy's solver, a parameter
  here: it receives one block of the cost matrix and returns the row indices and the
  column indices of the assignment, or raises. The exceptions of the tensor library are
  modelled where the code can meet them: \<^verbatim>\<open>torch.cat\<close> of an empty list, a class label
  that is no index of a class, the assertion of \<open>generalized_box_iou\<close>, operands whose
  shapes differ, \<^verbatim>\<open>view(bs, num_queries, -1)\<close> of a tensor with \<open>bs * num_queries = 0\<close>,
  and \<open>c[i]\<close> past the batch.
\<close>

definition HungarianMatcher_forward ::
  "HungarianMatcher \<Rightarrow> (real option list list \<Rightarrow> error + nat list \<times> nat list)
     \<Rightarrow> layer_outputs \<Rightarrow> target list \<Rightarrow> error + (nat list \<times> nat list) list" where
  "HungarianMatcher_forward m linear_sum_assignment outputs targets =
     (let bs = length (logits outputs);
          num_queries = (case logits outputs of [] \<Rightarrow> 0 | q # _ \<Rightarrow> length q);
          out_prob = map softmax (concat (logits outputs));
          out_bbox = concat (pred_boxes outputs)
      in if targets = [] then Inl RuntimeError
         else
           let tgt_ids = concat (map class_labels targets);
               tgt_bbox = concat (map boxes targets)
           in if \<not> list_all (\<lambda>prob. list_all (in_range (length prob)) tgt_ids) out_prob
              then Inl IndexError
              else
                case generalized_box_iou (map center_to_corners_format out_bbox)
                       (map center_to_corners_format tgt_bbox) of
                  Inl e \<Rightarrow> Inl e
                | Inr giou \<Rightarrow>
                    if length out_prob \<noteq> length out_bbox \<or> length tgt_ids \<noteq> length tgt_bbox
                    then Inl RuntimeError
                    else if bs * num_queries = 0 then Inl RuntimeError
                    else
                      let C = unflatten (replicate bs num_queries)
                                (cost_matrix m out_prob out_bbox tgt_ids tgt_bbox giou);
                          sizes = map (\<lambda>v. length (boxes v)) targets
                      in if length sizes > bs then Inl IndexError
                         else map_err linear_sum_assignment (blocks C sizes))"




text \<open>
  A solver that has this contract, for the examples: it pairs row \<open>k\<close> with column \<open>k\<close>
  and raises ValueError on a non-finite entry, as SciPy does.
\<close>

definition diagonal_solver :: "real option list list \<Rightarrow> error + nat list \<times> nat list" where
  "diagonal_solver c =
     (if list_ex (list_ex (\<lambda>e. e = None)) c then Inl ValueError
      else let k = min (length c) (case c of [] \<Rightarrow> 0 | row # _ \<Rightarrow> length row)
           in Inr ([0..<k], [0..<k]))"




text \<open>Inputs for the examples: one image, two queries, two classes.\<close>

definition matcher1 :: HungarianMatcher where
  "matcher1 = \<lparr>class_cost = 1, bbox_cost = 5, giou_cost = 2\<rparr>"


definition targets1 :: "target list" where
  "targets1 = [\<lparr>class_labels = [1], boxes = [(1 / 2, 1 / 2, 1 / 4, 1 / 4)]\<rparr>]"


section \<open>DETR: the set criterion\<close>

text \<open>
  A dictionary of losses is an association list in insertion order; a loss is a float
  that may be non-finite. \<^verbatim>\<open>dict.update\<close> overwrites the value of a key that is
  present and appends a key that is new.
\<close>

type_synonym loss_dict = "(string \<times> real option) list"

definition dict_update :: "(string \<times> 'v) list \<Rightarrow> (string \<times> 'v) list \<Rightarrow> (string \<times> 'v) list" where
  "dict_update d new = foldl (\<lambda>acc (k, v). AList.update k v acc) d new"

text \<open>Arithmetic on floats that may be non-finite: a non-finite operand gives a non-finite result.\<close>

definition tadd :: "real option \<Rightarrow> real option \<Rightarrow> real option" where
  "tadd a b = (case a of None \<Rightarrow> None | Some x \<Rightarrow> (case b of None \<Rightarrow> None | Some y \<Rightarrow> Some (x + y)))"

definition tscale :: "real option \<Rightarrow> real \<Rightarrow> real option" where
  "tscale a w = (case a of None \<Rightarrow> None | Some x \<Rightarrow> Some (x * w))"

definition tdivide :: "real option \<Rightarrow> real \<Rightarrow> real option" where
  "tdivide a b = (case a of None \<Rightarrow> None | Some x \<Rightarrow> tdiv x b)"

definition tsum :: "real option list \<Rightarrow> real option" where
  "tsum xs = foldl tadd (Some 0) xs"

text \<open>
  The numeric kernels that are not written out: \<^verbatim>\<open>F.cross_entropy\<close> (on the logits, the
  target classes and the class weights) and the pair of focal and dice loss that
  \<^verbatim>\<open>loss_masks\<close> computes from interpolated masks. Both may raise.
\<close>

record kernels =
  cross_entropy :: "real list list list \<Rightarrow> int list list \<Rightarrow> real list \<Rightarrow> error + real option"
  mask_losses :: "real list list list list \<Rightarrow> target list \<Rightarrow> (nat list \<times> nat list) list \<Rightarrow> real
                    \<Rightarrow> error + real option \<times> real option"

record SetCriterion =
  matcher :: "layer_outputs \<Rightarrow> target list \<Rightarrow> error + (nat list \<times> nat list) list"
  num_classes :: nat
  eos_coef :: real
  losses :: "string list"
  empty_weight :: "real list"

text \<open>
  \<^verbatim>\<open>_get_src_permutation_idx\<close>: the pairs (batch index, query index) of the matched
  predictions. \<^verbatim>\<open>torch.cat\<close> raises on an empty list.
\<close>

definition get_src_permutation_idx :: "(nat list \<times> nat list) list \<Rightarrow> error + (nat \<times> nat) list" where
  "get_src_permutation_idx indices =
     (if indices = [] then Inl RuntimeError
      else Inr (concat (map (\<lambda>(i, src, tgt). map (\<lambda>s. (i, s)) src) (zip [0..<length indices] indices))))"

text \<open>
  \<^verbatim>\<open>torch.cat([t[key][J] for t, (_, J) in zip(targets, indices)])\<close>: the entries of each
  target that its matching selects. An index out of range raises, and so does
  \<^verbatim>\<open>torch.cat\<close> on an empty list.
\<close>

definition select_targets ::
  "(target \<Rightarrow> 'a list) \<Rightarrow> target list \<Rightarrow> (nat list \<times> nat list) list \<Rightarrow> error + 'a list" where
  "select_targets key targets indices =
     (case map_err (\<lambda>(t, src, J). index_rows (key t) J) (zip targets indices) of
        Inl e \<Rightarrow> Inl e
      | Inr parts \<Rightarrow> if parts = [] then Inl RuntimeError else Inr (concat parts))"

text \<open>
  \<^verbatim>\<open>target_classes[idx] = target_classes_o\<close>: the assignments in order.
\<close>

fun scatter :: "int list list \<Rightarrow> (nat \<times> nat) list \<Rightarrow> int list \<Rightarrow> int list list" where
  "scatter tc ((b, q) # idx) (c # cs) = scatter (tc[b := (tc ! b)[q := c]]) idx cs"
| "scatter tc idx cs = tc"

text \<open>\<^verbatim>\<open>loss_labels\<close>.\<close>

definition loss_labels ::
  "kernels \<Rightarrow> SetCriterion \<Rightarrow> layer_outputs \<Rightarrow> target list \<Rightarrow> (nat list \<times> nat list) list
     \<Rightarrow> real \<Rightarrow> error + loss_dict" where
  "loss_labels K crit outputs targets indices num_boxes =
     (case get_src_permutation_idx indices of
        Inl e \<Rightarrow> Inl e
      | Inr idx \<Rightarrow>
          (case select_targets class_labels targets indices of
             Inl e \<Rightarrow> Inl e
           | Inr target_classes_o \<Rightarrow>
               let target_classes = map (map (\<lambda>q. int (num_classes crit))) (logits outputs) in
               if \<not> list_all (\<lambda>(b, q). b < length target_classes \<and> q < length (target_classes ! b)) idx
               then Inl IndexError
               else if length idx \<noteq> length target_classes_o then Inl RuntimeError
               else
                 (case cross_entropy K (logits outputs) (scatter target_classes idx target_classes_o)
                         (empty_weight crit) of
                    Inl e \<Rightarrow> Inl e
                  | Inr loss_ce \<Rightarrow> Inr [(''loss_ce'', loss_ce)])))"

text \<open>
  \<^verbatim>\<open>loss_cardinality\<close>: per batch item the number of queries whose most probable class
  is not the last one, against the number of targets; the L1 loss is the mean of the
  absolute differences.
\<close>

definition loss_cardinality ::
  "layer_outputs \<Rightarrow> target list \<Rightarrow> (nat list \<times> nat list) list \<Rightarrow> real \<Rightarrow> error + loss_dict" where
  "loss_cardinality outputs targets indices num_boxes =
     (let tgt_lengths = map (\<lambda>v. length (class_labels v)) targets;
          card_pred = map (\<lambda>qs. length (filter (\<lambda>q. int (argmax q) \<noteq> int (length q) - 1) qs))
                        (logits outputs)
      in if length card_pred \<noteq> length tgt_lengths then Inl RuntimeError
         else Inr [(''cardinality_error'',
                    tdiv (sum_list (map2 (\<lambda>p t. \<bar>real p - real t\<bar>) card_pred tgt_lengths))
                      (real (length card_pred)))])"

text \<open>
  \<^verbatim>\<open>loss_boxes\<close>. \<open>l1_sum\<close> is \<^verbatim>\<open>F.l1_loss(src_boxes, target_boxes, reduction="none").sum()\<close>
  and \<open>giou_loss_sum\<close> is the sum of \<open>1 - diag(generalized_box_iou(...))\<close>; both sums are
  divided by \<open>num_boxes\<close>.
\<close>

definition l1_sum :: "box list \<Rightarrow> box list \<Rightarrow> real" where
  "l1_sum src_boxes target_boxes = sum_list (map2 l1_dist src_boxes target_boxes)"

definition giou_loss_sum :: "box list \<Rightarrow> box list \<Rightarrow> error + real option" where
  "giou_loss_sum src_boxes target_boxes =
     (case generalized_box_iou (map center_to_corners_format src_boxes)
             (map center_to_corners_format target_boxes) of
        Inl e \<Rightarrow> Inl e
      | Inr giou \<Rightarrow>
          Inr (tsum (map (\<lambda>k. tsub (Some 1) (giou ! k ! k)) [0..<length src_boxes])))"

definition loss_boxes ::
  "layer_outputs \<Rightarrow> target list \<Rightarrow> (nat list \<times> nat list) list \<Rightarrow> real \<Rightarrow> error + loss_dict" where
  "loss_boxes outputs targets indices num_boxes =
     (case get_src_permutation_idx indices of
        Inl e \<Rightarrow> Inl e
      | Inr idx \<Rightarrow>
          if \<not> list_all (\<lambda>(b, q). b < length (pred_boxes outputs)
                                   \<and> q < length (pred_boxes outputs ! b)) idx
          then Inl IndexError
          else
            let src_boxes = map (\<lambda>(b, q). pred_boxes outputs ! b ! q) idx in
            (case select_targets boxes targets indices of
               Inl e \<Rightarrow> Inl e
             | Inr target_boxes \<Rightarrow>
                 if length src_boxes \<noteq> length target_boxes then Inl RuntimeError
                 else
                   (case giou_loss_sum src_boxes target_boxes of
                      Inl e \<Rightarrow> Inl e
                    | Inr loss_giou \<Rightarrow>
                        Inr [(''loss_bbox'', tdiv (l1_sum src_boxes target_boxes) num_boxes),
                             (''loss_giou'', tdivide loss_giou num_boxes)])))"

text \<open>\<^verbatim>\<open>loss_masks\<close>: the assertion that the outputs have masks, then the kernel.\<close>

definition loss_masks ::
  "kernels \<Rightarrow> layer_outputs \<Rightarrow> target list \<Rightarrow> (nat list \<times> nat list) list \<Rightarrow> real
     \<Rightarrow> error + loss_dict" where
  "loss_masks K outputs targets indices num_boxes =
     (case pred_masks outputs of
        None \<Rightarrow> Inl AssertionError
      | Some masks \<Rightarrow>
          (case mask_losses K masks targets indices num_boxes of
             Inl e \<Rightarrow> Inl e
           | Inr (focal, dice) \<Rightarrow> Inr [(''loss_mask'', focal), (''loss_dice'', dice)]))"

text \<open>\<^verbatim>\<open>get_loss\<close>: the loss of that name, an assertion when there is none.\<close>

definition get_loss ::
  "kernels \<Rightarrow> SetCriterion \<Rightarrow> string \<Rightarrow> layer_outputs \<Rightarrow> target list
     \<Rightarrow> (nat list \<times> nat list) list \<Rightarrow> real \<Rightarrow> error + loss_dict" where
  "get_loss K crit loss outputs targets indices num_boxes =
     (if loss = ''labels'' then loss_labels K crit outputs targets indices num_boxes
      else if loss = ''cardinality'' then loss_cardinality outputs targets indices num_boxes
      else if loss = ''boxes'' then loss_boxes outputs targets indices num_boxes
      else if loss = ''masks'' then loss_masks K outputs targets indices num_boxes
      else Inl AssertionError)"

text \<open>
  The normalization count of \<^verbatim>\<open>SetCriterion.forward\<close>: the number of class labels of
  all targets, as a float, clamped below at 1.
\<close>

definition num_boxes_of :: "target list \<Rightarrow> real" where
  "num_boxes_of targets =
     clamp_min (real (sum_list (map (\<lambda>t. length (class_labels t)) targets))) 1"

text \<open>The decimal digits of a number, as \<^verbatim>\<open>f"{i}"\<close> writes them.\<close>

definition digit :: "nat \<Rightarrow> char" where
  "digit n = ''0123456789'' ! n"

function str_nat :: "nat \<Rightarrow> string" where
  "str_nat n = (if n < 10 then [digit n] else str_nat (n div 10) @ [digit (n mod 10)])"
  by pat_completeness auto
termination
  by (relation "measure id") auto

declare str_nat.simps [simp del]

definition suffixed :: "string \<Rightarrow> nat \<Rightarrow> string" where
  "suffixed k i = k @ ''_'' @ str_nat i"

text \<open>The loop over the requested losses for the outputs of the last layer.\<close>

fun losses_loop ::
  "kernels \<Rightarrow> SetCriterion \<Rightarrow> layer_outputs \<Rightarrow> target list \<Rightarrow> (nat list \<times> nat list) list
     \<Rightarrow> real \<Rightarrow> string list \<Rightarrow> loss_dict \<Rightarrow> error + loss_dict" where
  "losses_loop K crit outputs targets indices nb [] acc = Inr acc"
| "losses_loop K crit outputs targets indices nb (loss # rest) acc =
     (case get_loss K crit loss outputs targets indices nb of
        Inl e \<Rightarrow> Inl e
      | Inr d \<Rightarrow> losses_loop K crit outputs targets indices nb rest (dict_update acc d))"

text \<open>
  The inner loop for the outputs of intermediate layer \<open>i\<close>: the mask loss is skipped and
  the keys get the suffix \<open>_i\<close>.
\<close>

fun aux_losses_loop ::
  "kernels \<Rightarrow> SetCriterion \<Rightarrow> nat \<Rightarrow> layer_outputs \<Rightarrow> target list \<Rightarrow> (nat list \<times> nat list) list
     \<Rightarrow> real \<Rightarrow> string list \<Rightarrow> loss_dict \<Rightarrow> error + loss_dict" where
  "aux_losses_loop K crit i aux targets indices nb [] acc = Inr acc"
| "aux_losses_loop K crit i aux targets indices nb (loss # rest) acc =
     (if loss = ''masks'' then aux_losses_loop K crit i aux targets indices nb rest acc
      else case get_loss K crit loss aux targets indices nb of
             Inl e \<Rightarrow> Inl e
           | Inr l_dict \<Rightarrow>
               aux_losses_loop K crit i aux targets indices nb rest
                 (dict_update acc (map (\<lambda>(k, v). (suffixed k i, v)) l_dict)))"

text \<open>The loop over the intermediate layers, from position \<open>i\<close> of the enumeration on.\<close>

fun aux_loop ::
  "kernels \<Rightarrow> SetCriterion \<Rightarrow> target list \<Rightarrow> real \<Rightarrow> nat \<Rightarrow> layer_outputs list \<Rightarrow> loss_dict
     \<Rightarrow> error + loss_dict" where
  "aux_loop K crit targets nb i [] acc = Inr acc"
| "aux_loop K crit targets nb i (aux # rest) acc =
     (case matcher crit aux targets of
        Inl e \<Rightarrow> Inl e
      | Inr indices \<Rightarrow>
          (case aux_losses_loop K crit i aux targets indices nb (losses crit) acc of
             Inl e \<Rightarrow> Inl e
           | Inr acc' \<Rightarrow> aux_loop K crit targets nb (Suc i) rest acc'))"

text \<open>
  The outputs given to the criterion: those of the last layer and, when the key
  \<open>auxiliary_outputs\<close> is present, the list of those of the intermediate layers.
\<close>

record criterion_outputs =
  final :: layer_outputs
  auxiliary_outputs :: "layer_outputs list option"

text \<open>\<^verbatim>\<open>SetCriterion.forward\<close>.\<close>

definition SetCriterion_forward ::
  "kernels \<Rightarrow> SetCriterion \<Rightarrow> criterion_outputs \<Rightarrow> target list \<Rightarrow> error + loss_dict" where
  "SetCriterion_forward K crit outputs targets =
     (case matcher crit (final outputs) targets of
        Inl e \<Rightarrow> Inl e
      | Inr indices \<Rightarrow>
          let num_boxes = num_boxes_of targets in
          (case losses_loop K crit (final outputs) targets indices num_boxes (losses crit) [] of
             Inl e \<Rightarrow> Inl e
           | Inr losses0 \<Rightarrow>
               (case auxiliary_outputs outputs of
                  None \<Rightarrow> Inr losses0
                | Some aux \<Rightarrow> aux_loop K crit targets num_boxes 0 aux losses0)))"

text \<open>
  The weights and the total loss of \<^verbatim>\<open>DetrForObjectDetection.forward\<close>, with the fields
  of the configuration that they read.
\<close>

record DetrConfig =
  auxiliary_loss :: bool
  decoder_layers :: int
  bbox_loss_coefficient :: real
  giou_loss_coefficient :: real

definition weight_dict :: "DetrConfig \<Rightarrow> (string \<times> real) list" where
  "weight_dict config =
     (let weight_dict0 = [(''loss_ce'', 1), (''loss_bbox'', bbox_loss_coefficient config),
                          (''loss_giou'', giou_loss_coefficient config)]
      in if auxiliary_loss config
         then dict_update weight_dict0
                (foldl (\<lambda>aux_weight_dict i.
                          dict_update aux_weight_dict (map (\<lambda>(k, v). (suffixed k i, v)) weight_dict0))
                   [] [0..<nat (decoder_layers config - 1)])
         else weight_dict0)"

text \<open>
  \<^verbatim>\<open>sum(loss_dict[k] * weight_dict[k] for k in loss_dict.keys() if k in weight_dict)\<close>.
\<close>

definition total_loss :: "DetrConfig \<Rightarrow> loss_dict \<Rightarrow> real option" where
  "total_loss config loss_dict =
     tsum (concat (map (\<lambda>(k, v). case map_of (weight_dict config) k of
                                    None \<Rightarrow> []
                                  | Some w \<Rightarrow> [tscale v w]) loss_dict))"

text \<open>
  Names for the proofs about the criterion: the keys that each loss writes, the
  dictionary and the matching behind a result, the entries that the last layer and an
  intermediate layer contribute, and the row of the four entries of one layer when the
  losses are labels, boxes and cardinality.
\<close>

definition base_keys :: "string list" where
  "base_keys = [''loss_ce'', ''cardinality_error'', ''loss_bbox'', ''loss_giou'',
                ''loss_mask'', ''loss_dice'']"

definition keys_of :: "string \<Rightarrow> string list" where
  "keys_of loss =
     (if loss = ''labels'' then [''loss_ce'']
      else if loss = ''cardinality'' then [''cardinality_error'']
      else if loss = ''boxes'' then [''loss_bbox'', ''loss_giou'']
      else if loss = ''masks'' then [''loss_mask'', ''loss_dice'']
      else [])"

definition dict_of :: "error + loss_dict \<Rightarrow> loss_dict" where
  "dict_of r = (case r of Inl e \<Rightarrow> [] | Inr d \<Rightarrow> d)"

definition indices_of :: "error + (nat list \<times> nat list) list \<Rightarrow> (nat list \<times> nat list) list" where
  "indices_of r = (case r of Inl e \<Rightarrow> [] | Inr i \<Rightarrow> i)"

definition aux_items ::
  "kernels \<Rightarrow> SetCriterion \<Rightarrow> target list \<Rightarrow> real \<Rightarrow> nat \<Rightarrow> layer_outputs \<Rightarrow> loss_dict" where
  "aux_items K crit targets nb i aux =
     concat (map (\<lambda>loss. map (\<lambda>(k, v). (suffixed k i, v))
                    (dict_of (get_loss K crit loss aux targets
                                (indices_of (matcher crit aux targets)) nb)))
               (filter (\<lambda>loss. loss \<noteq> ''masks'') (losses crit)))"

definition base_items ::
  "kernels \<Rightarrow> SetCriterion \<Rightarrow> layer_outputs \<Rightarrow> target list \<Rightarrow> loss_dict" where
  "base_items K crit outputs targets =
     concat (map (\<lambda>loss. dict_of (get_loss K crit loss outputs targets
                            (indices_of (matcher crit outputs targets)) (num_boxes_of targets)))
               (losses crit))"

definition all_items ::
  "kernels \<Rightarrow> SetCriterion \<Rightarrow> criterion_outputs \<Rightarrow> target list \<Rightarrow> loss_dict" where
  "all_items K crit outputs targets =
     base_items K crit (final outputs) targets
     @ (case auxiliary_outputs outputs of
          None \<Rightarrow> []
        | Some auxs \<Rightarrow>
            concat (map (\<lambda>j. aux_items K crit targets (num_boxes_of targets) j (auxs ! j))
                      [0..<length auxs]))"

definition layer_row ::
  "(string \<Rightarrow> string) \<Rightarrow> real option \<times> real option \<times> real option \<times> real option \<Rightarrow> loss_dict" where
  "layer_row key t =
     (case t of (ce, bb, gi, ca) \<Rightarrow>
        [(key ''loss_ce'', ce), (key ''loss_bbox'', bb), (key ''loss_giou'', gi),
         (key ''cardinality_error'', ca)])"

definition weight_keys :: "string list" where
  "weight_keys = [''loss_ce'', ''loss_bbox'', ''loss_giou'']"

definition loss_keys4 :: "string list" where
  "loss_keys4 = [''loss_ce'', ''loss_bbox'', ''loss_giou'', ''cardinality_error'']"

text \<open>
  The total loss in the words of the specification, for comparison with \<open>total_loss\<close>:
  all resulting loss terms are summed, each multiplied by its configured weight
  \<^verbatim>\<open>weight_dict[k]\<close>; a term that has no configured weight raises KeyError.
\<close>

definition weighted_sum_of_all :: "DetrConfig \<Rightarrow> loss_dict \<Rightarrow> error + real option" where
  "weighted_sum_of_all config loss_dict =
     (case map_err (\<lambda>(k, v). case map_of (weight_dict config) k of
                                None \<Rightarrow> Inl KeyError
                              | Some w \<Rightarrow> Inr (tscale v w)) loss_dict of
        Inl e \<Rightarrow> Inl e
      | Inr terms \<Rightarrow> Inr (tsum terms))"

text \<open>
  Inputs for the examples: kernels that return 1, the criterion of
  \<^verbatim>\<open>DetrForObjectDetection\<close> with the Hungarian matcher, outputs whose two queries both
  predict class 0, and a configuration with two decoder layers.
\<close>

definition kernels0 :: kernels where
  "kernels0 = \<lparr>cross_entropy = (\<lambda>src_logits target_classes weight. Inr (Some 1)),
               mask_losses = (\<lambda>masks targets indices num_boxes. Inr (Some 1, Some 1))\<rparr>"

definition criterion0 :: SetCriterion where
  "criterion0 = \<lparr>matcher = HungarianMatcher_forward matcher1 diagonal_solver,
     num_classes = 1, eos_coef = 1 / 10,
     losses = [''labels'', ''boxes'', ''cardinality''], empty_weight = [1, 1 / 10]\<rparr>"

definition outputs2 :: layer_outputs where
  "outputs2 = \<lparr>logits = [[[1, 0], [1, 0]]],
     pred_boxes = [[(1 / 2, 1 / 2, 1 / 2, 1 / 2), (1 / 4, 1 / 4, 1 / 4, 1 / 4)]],
     pred_masks = None\<rparr>"

definition criterion_outputs0 :: criterion_outputs where
  "criterion_outputs0 = \<lparr>final = outputs2, auxiliary_outputs = Some [outputs2]\<rparr>"

definition config0 :: DetrConfig where
  "config0 = \<lparr>auxiliary_loss = True, decoder_layers = 2,
     bbox_loss_coefficient = 5, giou_loss_coefficient = 2\<rparr>"

definition loss_dict0 :: loss_dict where
  "loss_dict0 =
     [(''loss_ce'', Some 1), (''loss_bbox'', Some (1 / 2)), (''loss_giou'', Some (3 / 4)),
      (''cardinality_error'', Some 1),
      (''loss_ce_0'', Some 1), (''loss_bbox_0'', Some (1 / 2)), (''loss_giou_0'', Some (3 / 4)),
      (''cardinality_error_0'', Some 1)]"

text \<open>One image that has no target box.\<close>

definition targets_empty :: "target list" where
  "targets_empty = [\<lparr>class_labels = [], boxes = []\<rparr>]"

definition criterion_outputs1 :: criterion_outputs where
  "criterion_outputs1 = \<lparr>final = outputs2, auxiliary_outputs = None\<rparr>"

section \<open>Token classification pipeline: the constructor's strategy check\<close>

text \<open>
  \<^verbatim>\<open>AggregationStrategy\<close> (token_classification.py), an enumeration. Its members
  carry the prefix \<open>AS_\<close> here, \<open>MAX\<close> being reserved syntax.
\<close>

datatype AggregationStrategy = AS_NONE | AS_SIMPLE | AS_FIRST | AS_AVERAGE | AS_MAX

text \<open>
  \<^verbatim>\<open>AggregationStrategy[name]\<close>: the member of that name, KeyError when there is none.
\<close>

definition AggregationStrategy_getitem :: "string \<Rightarrow> error + AggregationStrategy" where
  "AggregationStrategy_getitem name =
     (if name = ''NONE'' then Inr AS_NONE
      else if name = ''SIMPLE'' then Inr AS_SIMPLE
      else if name = ''FIRST'' then Inr AS_FIRST
      else if name = ''AVERAGE'' then Inr AS_AVERAGE
      else if name = ''MAX'' then Inr AS_MAX
      else Inl KeyError)"

text \<open>\<^verbatim>\<open>str.upper\<close>, on ASCII letters (characters are bytes here).\<close>

definition upper_char :: "char \<Rightarrow> char" where
  "upper_char c =
     (case map_of (zip ''abcdefghijklmnopqrstuvwxyz'' ''ABCDEFGHIJKLMNOPQRSTUVWXYZ'') c of
        Some u \<Rightarrow> u | None \<Rightarrow> c)"

definition upper :: "string \<Rightarrow> string" where
  "upper s = map upper_char s"

text \<open>
  The \<open>aggregation_strategy\<close> argument is \<^verbatim>\<open>None\<close>, a string or a member of the
  enumeration.
\<close>

datatype strategy_arg = Str string | Member AggregationStrategy

record tokenizer =
  is_fast :: bool

record TokenClassificationPipeline =
  ignore_labels :: "string list"
  aggregation_strategy :: AggregationStrategy

text \<open>
  \<^verbatim>\<open>TokenClassificationPipeline.__init__\<close>. \<^verbatim>\<open>Pipeline.__init__\<close> and
  \<^verbatim>\<open>check_model_type\<close> are defined in pipelines/base.py; what they do is the parameter
  \<open>base\<close>: \<open>Some e\<close> when one of them raises \<open>e\<close>, \<open>None\<close> when both return. The
  warnings have no effect on the result. \<open>grouped_entities\<close> and \<open>ignore_subwords\<close> are
  optional booleans, \<^verbatim>\<open>None\<close> being falsy.
\<close>

definition truthy :: "bool option \<Rightarrow> bool" where
  "truthy b = (case b of None \<Rightarrow> False | Some v \<Rightarrow> v)"

definition TokenClassificationPipeline_init ::
  "error option \<Rightarrow> tokenizer \<Rightarrow> string list \<Rightarrow> bool option \<Rightarrow> bool option
     \<Rightarrow> strategy_arg option \<Rightarrow> error + TokenClassificationPipeline" where
  "TokenClassificationPipeline_init base tok ignore grouped_entities ignore_subwords strategy =
     (case base of
        Some e \<Rightarrow> Inl e
      | None \<Rightarrow>
          let strategy1 =
                (case strategy of
                   Some a \<Rightarrow> a
                 | None \<Rightarrow>
                     if grouped_entities \<noteq> None \<or> ignore_subwords \<noteq> None
                     then (if truthy grouped_entities \<and> truthy ignore_subwords then Member AS_FIRST
                           else if truthy grouped_entities \<and> \<not> truthy ignore_subwords then Member AS_SIMPLE
                           else Member AS_NONE)
                     else Member AS_NONE);
              strategy2 =
                (case strategy1 of
                   Str s \<Rightarrow> AggregationStrategy_getitem (upper s)
                 | Member m \<Rightarrow> Inr m)
          in case strategy2 of
               Inl e \<Rightarrow> Inl e
             | Inr m \<Rightarrow>
                 if m \<in> {AS_FIRST, AS_MAX, AS_AVERAGE} \<and> \<not> is_fast tok then Inl ValueError
                 else Inr \<lparr>ignore_labels = ignore, aggregation_strategy = m\<rparr>)"

section \<open>Theorems\<close>


text \<open>
  C5 (as stated, refuted). The claim says that a negative weight is rejected. The
  constructor only asserts that the three weights are not all zero: with
  \<open>class_cost = -1\<close> the matcher is constructed.
\<close>

theorem C5_negative_weight_accepted:
  "HungarianMatcher_init (- 1) 1 1 = Inr \<lparr>class_cost = - 1, bbox_cost = 1, giou_cost = 1\<rparr>"
  by (simp add: HungarianMatcher_init_def)

text \<open>
  C5 (amended). Constructing a HungarianMatcher raises (an AssertionError) exactly when
  all three weights are zero; every other triple of weights, negative ones included, is
  accepted and stored unchanged.
\<close>

theorem C5_init_raises_iff_all_zero:
  "(HungarianMatcher_init c b g = Inl AssertionError) = (c = 0 \<and> b = 0 \<and> g = 0)
   \<and> (HungarianMatcher_init c b g = Inr \<lparr>class_cost = c, bbox_cost = b, giou_cost = g\<rparr>)
       = (\<not> (c = 0 \<and> b = 0 \<and> g = 0))
   \<and> (\<forall>e. HungarianMatcher_init c b g = Inl e \<longrightarrow> e = AssertionError)"
  by (auto simp: HungarianMatcher_init_def)

theorem C5_init_raises_iff_all_zero_witness:
  "HungarianMatcher_init 0 0 0 = Inl AssertionError
   \<and> HungarianMatcher_init 0 2 0 = Inr \<lparr>class_cost = 0, bbox_cost = 2, giou_cost = 0\<rparr>"
  using C5_init_raises_iff_all_zero [of 0 0 0] C5_init_raises_iff_all_zero [of 0 2 0]
  by simp







lemma upper_names:
  "upper ''first'' = ''FIRST''" "upper ''max'' = ''MAX''" "upper ''average'' = ''AVERAGE''"
  "upper ''simple'' = ''SIMPLE''" "upper ''none'' = ''NONE''"
  by (simp_all add: upper_def upper_char_def)

text \<open>
  C8. When \<open>threshold_ema_dead_code\<close> is 0, \<^verbatim>\<open>expire_codes_\<close> returns at once: for every
  codebook state, every random source and every batch of samples the codebook that
  results is the codebook given, embeddings and all other buffers unchanged, whatever
  the EMA cluster sizes are.
\<close>

theorem C8_expire_codes_disabled:
  assumes "threshold_ema_dead_code cb = 0"
  shows "expire_codes cb g batch_samples = Inr cb"
  using assms by (simp add: expire_codes_def)

theorem C8_expire_codes_disabled_witness:
  "threshold_ema_dead_code (codebook2 0) = 0
   \<and> expire_codes (codebook2 0) rng0 [[[7], [8]]] = Inr (codebook2 0)
   \<and> expire_codes (codebook2 2) rng0 [[[7], [8]]] = Inr ((codebook2 2)\<lparr>embed := [[8], [2]]\<rparr>)"
proof -
  have t: "threshold_ema_dead_code (codebook2 0) = 0"
    by (simp add: codebook2_def)
  have r: "expire_codes (codebook2 2) rng0 [[[7], [8]]] = Inr ((codebook2 2)\<lparr>embed := [[8], [2]]\<rparr>)"
    by (simp add: expire_codes_def replace_def sample_vectors_def index_rows_def
        codebook2_def rng0_def)
  show ?thesis
    using C8_expire_codes_disabled [OF t, of rng0 "[[[7], [8]]]"] t r by simp
qed

text \<open>
  C9. When the base class's constructor and the model-type check return, constructing a
  TokenClassificationPipeline with the aggregation strategy 'first', 'max' or 'average'
  (given as a string or as the member of the enumeration) and a tokenizer that is not
  fast raises ValueError, and the strategies 'simple' and 'none' are accepted with any
  tokenizer, fast or not.
\<close>

theorem C9_slow_tokenizer_strategies:
  "(s \<in> {''first'', ''max'', ''average''} \<and> \<not> is_fast tok \<longrightarrow>
      TokenClassificationPipeline_init None tok ign ge isw (Some (Str s)) = Inl ValueError)
   \<and> (m \<in> {AS_FIRST, AS_MAX, AS_AVERAGE} \<and> \<not> is_fast tok \<longrightarrow>
      TokenClassificationPipeline_init None tok ign ge isw (Some (Member m)) = Inl ValueError)
   \<and> TokenClassificationPipeline_init None tok ign ge isw (Some (Str ''simple''))
       = Inr \<lparr>ignore_labels = ign, aggregation_strategy = AS_SIMPLE\<rparr>
   \<and> TokenClassificationPipeline_init None tok ign ge isw (Some (Str ''none''))
       = Inr \<lparr>ignore_labels = ign, aggregation_strategy = AS_NONE\<rparr>
   \<and> TokenClassificationPipeline_init None tok ign ge isw (Some (Member AS_SIMPLE))
       = Inr \<lparr>ignore_labels = ign, aggregation_strategy = AS_SIMPLE\<rparr>
   \<and> TokenClassificationPipeline_init None tok ign ge isw (Some (Member AS_NONE))
       = Inr \<lparr>ignore_labels = ign, aggregation_strategy = AS_NONE\<rparr>"
  by (auto simp: TokenClassificationPipeline_init_def AggregationStrategy_getitem_def upper_names)

theorem C9_slow_tokenizer_strategies_witness:
  "\<not> is_fast \<lparr>is_fast = False\<rparr>
   \<and> TokenClassificationPipeline_init None \<lparr>is_fast = False\<rparr> [''O''] None None (Some (Str ''first''))
       = Inl ValueError
   \<and> TokenClassificationPipeline_init None \<lparr>is_fast = False\<rparr> [''O''] None None (Some (Member AS_MAX))
       = Inl ValueError
   \<and> TokenClassificationPipeline_init None \<lparr>is_fast = False\<rparr> [''O''] None None (Some (Str ''simple''))
       = Inr \<lparr>ignore_labels = [''O''], aggregation_strategy = AS_SIMPLE\<rparr>"
  using C9_slow_tokenizer_strategies
    [of "''first''" "\<lparr>is_fast = False\<rparr>" "[''O'']" None None AS_MAX]
  by simp

subsection \<open>Residual vector quantization\<close>

lemma argmax_less: "xs \<noteq> [] \<Longrightarrow> argmax xs < length xs"
  by (induction xs rule: argmax.induct) (auto simp: Let_def)




lemma unflatten_map_concat: "unflatten (map length x) (map f (concat x)) = map (map f) x"
  by (induction x) auto

lemma nearest_less: "wf_layer d l \<Longrightarrow> nearest l v < length (embed (codebook l))"
  using argmax_less [of "map (neg_dist v) (embed (codebook l))"]
  by (simp add: wf_layer_def nearest_def)

lemma qvec_length: "wf_layer d l \<Longrightarrow> length (embed (codebook l) ! nearest l v) = d"
  using nearest_less [of d l v] by (simp add: wf_layer_def list_all_length)

lemma stage_length: "wf_layer d l \<Longrightarrow> length v = d \<Longrightarrow> length (stage l v) = d"
  by (simp add: stage_def qvec_length)

lemma VQ_encode_wf:
  assumes "wf_layer d l" "wf_input d x"
  shows "VectorQuantization_encode l x = Inr (map (map (nearest l)) x)"
proof -
  have "list_all (\<lambda>v. list_all (\<lambda>e. length e = length v) (embed (codebook l))) (concat x)"
    using assms by (auto simp: wf_layer_def wf_input_def list_all_iff)
  then show ?thesis
    using assms(1)
    by (simp add: VectorQuantization_encode_def EuclideanCodebook_encode_def quantize_def
        wf_layer_def unflatten_map_concat nearest_def)
qed

lemma VQ_decode_wf:
  assumes "wf_layer d l"
  shows "VectorQuantization_decode l (map (map (nearest l)) x)
       = Inr (map (map (\<lambda>v. embed (codebook l) ! nearest l v)) x)"
  using nearest_less [OF assms]
  by (simp add: VectorQuantization_decode_def EuclideanCodebook_decode_def dequantize_def
      list_all_iff comp_def)

lemma map2_same: "map2 f (map g xs) (map h xs) = map (\<lambda>v. f (g v) (h v)) xs"
  by (induction xs) auto

lemma tensor_sub_map:
  assumes "\<forall>r \<in> set x. \<forall>v \<in> set r. length (f v) = length (g v)"
  shows "tensor_sub (map (map f) x) (map (map g) x)
       = Inr (map (map (\<lambda>v. map2 (-) (f v) (g v))) x)"
proof -
  have "shape (map (map f) x) = shape (map (map g) x)"
    using assms by (simp add: shape_def)
  moreover have "map2 (map2 (map2 (-))) (map (map f) x) (map (map g) x)
      = map (map (\<lambda>v. map2 (-) (f v) (g v))) x"
    by (simp add: map2_same)
  ultimately show ?thesis by (simp add: tensor_sub_def)
qed


lemma wf_input_stage: "wf_layer d l \<Longrightarrow> wf_input d x \<Longrightarrow> wf_input d (map (map (stage l)) x)"
  by (auto simp: wf_input_def list_all_iff stage_length)

lemma encode_step:
  assumes "wf_layer d l" "wf_input d x"
  shows "encode_loop (l # ls) x =
     (case encode_loop ls (map (map (stage l)) x) of
        Inl e \<Rightarrow> Inl e | Inr all_indices \<Rightarrow> Inr (map (map (nearest l)) x # all_indices))"
proof -
  have len: "\<forall>r \<in> set x. \<forall>v \<in> set r. length (id v) = length (embed (codebook l) ! nearest l v)"
    using assms by (auto simp: wf_input_def list_all_iff qvec_length)
  have "tensor_sub x (map (map (\<lambda>v. embed (codebook l) ! nearest l v)) x)
      = Inr (map (map (stage l)) x)"
    using tensor_sub_map [OF len] by (simp add: stage_def)
  then show ?thesis
    by (simp add: VQ_encode_wf [OF assms] VQ_decode_wf [OF assms(1)])
qed

lemma encode_loop_wf:
  "list_all (wf_layer d) ls \<Longrightarrow> wf_input d x \<Longrightarrow> encode_loop ls x = Inr (run_codes ls x)"
proof (induction ls arbitrary: x)
  case Nil then show ?case by simp
next
  case (Cons l ls)
  then have "encode_loop ls (map (map (stage l)) x) = Inr (run_codes ls (map (map (stage l)) x))"
    by (simp add: wf_input_stage)
  then show ?case using Cons.prems encode_step [of d l x ls] by simp
qed

lemma length_run_codes: "length (run_codes ls x) = length ls"
  by (induction ls arbitrary: x) auto

lemma run_codes_shape: "t \<in> set (run_codes ls x) \<Longrightarrow> map length t = map length x"
  by (induction ls arbitrary: x) auto


lemma slice_to_pos: "0 < k \<Longrightarrow> slice_to xs k = take (min (nat k) (length xs)) xs"
  by (simp add: slice_to_def min_def)

lemma encode_Some_pos:
  assumes "0 < k"
  shows "ResidualVectorQuantization_encode rvq x (Some k)
       = (case encode_loop (take (min (nat k) (length (layers rvq))) (layers rvq)) x of
            Inl e \<Rightarrow> Inl e
          | Inr all_indices \<Rightarrow> if all_indices = [] then Inl RuntimeError else Inr all_indices)"
  using assms by (simp add: ResidualVectorQuantization_encode_def slice_to_pos)

lemma encode_None:
  "ResidualVectorQuantization_encode rvq x None
       = (case encode_loop (layers rvq) x of
            Inl e \<Rightarrow> Inl e
          | Inr all_indices \<Rightarrow> if all_indices = [] then Inl RuntimeError else Inr all_indices)"
  by (simp add: ResidualVectorQuantization_encode_def slice_to_def)

lemma encode_zero:
  "ResidualVectorQuantization_encode rvq x (Some 0) = ResidualVectorQuantization_encode rvq x None"
  by (simp add: ResidualVectorQuantization_encode_def)

lemma encode_take_wf:
  assumes "list_all (wf_layer d) ls" "wf_input d x" "0 < n" "n \<le> length ls"
  shows "encode_loop (take n ls) x = Inr (run_codes (take n ls) x)"
    and "run_codes (take n ls) x \<noteq> []"
    and "length (run_codes (take n ls) x) = n"
proof -
  have "list_all (wf_layer d) (take n ls)"
    using assms(1) by (auto simp: list_all_iff dest: in_set_takeD)
  then show "encode_loop (take n ls) x = Inr (run_codes (take n ls) x)"
    using assms(2) by (rule encode_loop_wf)
  show l: "length (run_codes (take n ls) x) = n"
    using assms(4) by (simp add: length_run_codes)
  show "run_codes (take n ls) x \<noteq> []"
    using l assms(3) by auto
qed

text \<open>
  C10. For well-formed shapes and at least one constructed layer:
  \<open>ResidualVectorQuantization.encode(x, n_q)\<close> with a positive \<open>n_q\<close> runs its loop over
  exactly the first \<open>min(n_q, num_quantizers)\<close> layers and returns that many index
  tensors, each of the shape \<open>[b, n]\<close> of the input; an \<open>n_q\<close> of at least the number of
  layers gives the result of all layers without raising, and so do \<open>None\<close> and 0.
\<close>

theorem C10_encode_stage_count:
  assumes "list_all (wf_layer d) (layers rvq)" and "wf_input d x" and "layers rvq \<noteq> []"
  shows "(0 < k \<longrightarrow>
          (\<exists>ind. ResidualVectorQuantization_encode rvq x (Some k) = Inr ind
             \<and> encode_loop (take (min (nat k) (length (layers rvq))) (layers rvq)) x = Inr ind
             \<and> length ind = min (nat k) (length (layers rvq))
             \<and> list_all (\<lambda>t. map length t = map length x) ind))
       \<and> (int (length (layers rvq)) \<le> k \<longrightarrow>
            ResidualVectorQuantization_encode rvq x (Some k)
              = ResidualVectorQuantization_encode rvq x None)
       \<and> ResidualVectorQuantization_encode rvq x (Some 0)
           = ResidualVectorQuantization_encode rvq x None
       \<and> (\<exists>ind. ResidualVectorQuantization_encode rvq x None = Inr ind
             \<and> encode_loop (layers rvq) x = Inr ind
             \<and> length ind = length (layers rvq))"
proof -
  let ?ls = "layers rvq"
  have pos: "0 < length ?ls" using assms(3) by simp
  have a: "\<exists>ind. ResidualVectorQuantization_encode rvq x (Some k) = Inr ind
             \<and> encode_loop (take (min (nat k) (length ?ls)) ?ls) x = Inr ind
             \<and> length ind = min (nat k) (length ?ls)
             \<and> list_all (\<lambda>t. map length t = map length x) ind" if k: "0 < k"
  proof -
    let ?n = "min (nat k) (length ?ls)"
    have n: "0 < ?n" "?n \<le> length ?ls" using k pos by auto
    note e = encode_take_wf [OF assms(1,2) n]
    have "list_all (\<lambda>t. map length t = map length x) (run_codes (take ?n ?ls) x)"
      by (auto simp: list_all_iff dest: run_codes_shape)
    then show ?thesis
      using e by (simp add: encode_Some_pos [OF k])
  qed
  have b: "ResidualVectorQuantization_encode rvq x (Some k)
              = ResidualVectorQuantization_encode rvq x None" if k: "int (length ?ls) \<le> k"
  proof -
    have "0 < k" using k pos by linarith
    moreover have "min (nat k) (length ?ls) = length ?ls" using k by linarith
    ultimately show ?thesis by (simp add: encode_Some_pos encode_None)
  qed
  have c: "\<exists>ind. ResidualVectorQuantization_encode rvq x None = Inr ind
             \<and> encode_loop ?ls x = Inr ind \<and> length ind = length ?ls"
  proof -
    have n: "0 < length ?ls" "length ?ls \<le> length ?ls" using pos by auto
    note e = encode_take_wf [OF assms(1,2) n]
    show ?thesis using e by (simp add: encode_None)
  qed
  show ?thesis using a b c encode_zero by blast
qed

lemmas rvq_eval_defs = ResidualVectorQuantization_encode_def
  ResidualVectorQuantization_decode_def slice_to_def layer_of_def
  VectorQuantization_encode_def VectorQuantization_decode_def EuclideanCodebook_encode_def
  EuclideanCodebook_decode_def quantize_def dequantize_def neg_dist_def dot_def sum_sq_def
  tensor_sub_def tensor_add_def shape_def

theorem C10_encode_stage_count_witness:
  "list_all (wf_layer 1) (layers rvq2) \<and> wf_input 1 [[[0], [3]]] \<and> layers rvq2 \<noteq> []
   \<and> ResidualVectorQuantization_encode rvq2 [[[0], [3]]] (Some 5) = Inr [[[0, 1]], [[0, 0]]]
   \<and> ResidualVectorQuantization_encode rvq2 [[[0], [3]]] (Some 1) = Inr [[[0, 1]]]
   \<and> ResidualVectorQuantization_encode rvq2 [[[0], [3]]] None = Inr [[[0, 1]], [[0, 0]]]"
proof -
  have w: "list_all (wf_layer 1) (layers rvq2)" "wf_input 1 [[[0], [3]]]" "layers rvq2 \<noteq> []"
    by (simp_all add: rvq2_def wf_layer_def wf_input_def layer_of_def)
  have e: "ResidualVectorQuantization_encode rvq2 [[[0], [3]]] None = Inr [[[0, 1]], [[0, 0]]]"
    "ResidualVectorQuantization_encode rvq2 [[[0], [3]]] (Some 1) = Inr [[[0, 1]]]"
    by (simp_all add: rvq2_def rvq_eval_defs)
  have l: "int (length (layers rvq2)) \<le> 5" by (simp add: rvq2_def)
  show ?thesis
    using C10_encode_stage_count [OF w, of 5] w e l by simp
qed


lemma acc_vec_length:
  "list_all (wf_layer d) cs \<Longrightarrow> length a = d \<Longrightarrow> length v = d \<Longrightarrow> length (acc_vec cs a v) = d"
  by (induction cs arbitrary: a v) (auto simp: qvec_length stage_length)
















subsection \<open>The Hungarian matcher\<close>

















subsection \<open>The set criterion\<close>

subsection \<open>Decimal suffixes\<close>

lemma digit_in: "n < 10 \<Longrightarrow> digit n \<in> set ''0123456789''"
  unfolding digit_def by (rule nth_mem) simp

lemma digit_inj: "n < 10 \<Longrightarrow> m < 10 \<Longrightarrow> digit n = digit m \<Longrightarrow> n = m"
proof -
  assume n: "n < 10" and m: "m < 10" and e: "digit n = digit m"
  have d: "distinct ''0123456789''" by simp
  have l: "n < length ''0123456789''" "m < length ''0123456789''" using n m by simp_all
  have "''0123456789'' ! n = ''0123456789'' ! m" using e by (simp only: digit_def)
  then show ?thesis by (simp only: nth_eq_iff_index_eq [OF d l])
qed

lemma str_nat_digits: "set (str_nat n) \<subseteq> set ''0123456789''"
proof (induction n rule: str_nat.induct)
  case (1 n)
  show ?case
  proof (cases "n < 10")
    case True
    then show ?thesis using digit_in [of n] by (subst str_nat.simps) simp
  next
    case False
    have "n mod 10 < 10" by simp
    then have "digit (n mod 10) \<in> set ''0123456789''" by (rule digit_in)
    then show ?thesis using 1 False by (subst str_nat.simps) simp
  qed
qed

lemma str_nat_nonempty: "str_nat n \<noteq> []"
  by (subst str_nat.simps) simp

lemma str_nat_inj: "str_nat n = str_nat m \<Longrightarrow> n = m"
proof (induction n arbitrary: m rule: str_nat.induct)
  case (1 n)
  show ?case
  proof (cases "n < 10")
    case True
    then have n: "str_nat n = [digit n]" by (subst str_nat.simps) simp
    show ?thesis
    proof (cases "m < 10")
      case m: True
      then have "str_nat m = [digit m]" by (subst str_nat.simps) simp
      then show ?thesis using n 1(2) True m digit_inj by simp
    next
      case m: False
      then have "str_nat m = str_nat (m div 10) @ [digit (m mod 10)]"
        by (subst str_nat.simps) simp
      then show ?thesis using n 1(2) str_nat_nonempty [of "m div 10"] by simp
    qed
  next
    case False
    then have n: "str_nat n = str_nat (n div 10) @ [digit (n mod 10)]"
      by (subst str_nat.simps) simp
    show ?thesis
    proof (cases "m < 10")
      case m: True
      then have "str_nat m = [digit m]" by (subst str_nat.simps) simp
      then show ?thesis using n 1(2) str_nat_nonempty [of "n div 10"] by simp
    next
      case m: False
      then have "str_nat m = str_nat (m div 10) @ [digit (m mod 10)]"
        by (subst str_nat.simps) simp
      then have e: "str_nat (n div 10) = str_nat (m div 10)" "digit (n mod 10) = digit (m mod 10)"
        using n 1(2) by simp_all
      have "n div 10 = m div 10" using 1(1) [OF False e(1)] .
      moreover have "n mod 10 = m mod 10" using e(2) by (intro digit_inj) simp_all
      ultimately show ?thesis by (metis div_mult_mod_eq)
    qed
  qed
qed

lemma split_at_last:
  assumes "c \<notin> set s" and "c \<notin> set t" and "a @ c # s = b @ c # t"
  shows "a = b \<and> s = t"
proof -
  have "takeWhile (\<lambda>x. x \<noteq> c) (rev (a @ c # s)) = rev s"
    using assms(1) by (auto simp: takeWhile_tail)
  moreover have "takeWhile (\<lambda>x. x \<noteq> c) (rev (b @ c # t)) = rev t"
    using assms(2) by (auto simp: takeWhile_tail)
  ultimately have "rev s = rev t" using assms(3) by simp
  then have "s = t" by simp
  then show ?thesis using assms(3) by simp
qed

lemma underscore_not_digit: "CHR ''_'' \<notin> set (str_nat i)"
  using str_nat_digits [of i] by auto

lemma suffixed_inj: "suffixed k i = suffixed k' j \<Longrightarrow> k = k' \<and> i = j"
proof -
  assume "suffixed k i = suffixed k' j"
  then have "k @ CHR ''_'' # str_nat i = k' @ CHR ''_'' # str_nat j"
    by (simp add: suffixed_def)
  then have "k = k' \<and> str_nat i = str_nat j"
    by (rule split_at_last [OF underscore_not_digit underscore_not_digit])
  then show ?thesis using str_nat_inj by blast
qed

lemma suffixed_last: "last (suffixed k i) \<in> set ''0123456789''"
proof -
  have "last (suffixed k i) = last (str_nat i)"
    using str_nat_nonempty [of i] by (simp add: suffixed_def)
  moreover have "last (str_nat i) \<in> set (str_nat i)"
    using str_nat_nonempty [of i] by simp
  ultimately show ?thesis using str_nat_digits [of i] by auto
qed

lemma suffixed_not_base: "k \<in> set base_keys \<Longrightarrow> suffixed k' i \<noteq> k"
proof
  assume k: "k \<in> set base_keys" and e: "suffixed k' i = k"
  have "last k \<notin> set ''0123456789''" using k by (auto simp: base_keys_def)
  then show False using suffixed_last [of k' i] e by simp
qed

subsection \<open>Dictionaries\<close>

lemma dict_update_append: "dict_update (dict_update d a) b = dict_update d (a @ b)"
  by (simp add: dict_update_def)

lemma dict_update_Nil: "dict_update d [] = d"
  by (simp add: dict_update_def)

lemma dict_update_fresh:
  "distinct (map fst new) \<Longrightarrow> set (map fst new) \<inter> set (map fst d) = {} \<Longrightarrow>
   dict_update d new = d @ new"
proof (induction new arbitrary: d)
  case Nil then show ?case by (simp add: dict_update_def)
next
  case (Cons kv new)
  obtain k v where kv: "kv = (k, v)" by (cases kv)
  have fresh: "k \<notin> fst ` set d" using Cons.prems(2) kv by auto
  have u: "AList.update k v d = d @ [(k, v)]"
    using fresh by (induction d) auto
  have "dict_update d (kv # new) = dict_update (d @ [(k, v)]) new"
    by (simp add: dict_update_def kv u)
  also have "\<dots> = (d @ [(k, v)]) @ new"
    using Cons.prems kv by (intro Cons.IH) auto
  finally show ?case by (simp add: kv)
qed

lemma map_of_dict_update:
  "map_of (dict_update d new) k
   = (case map_of (rev new) k of Some v \<Rightarrow> Some v | None \<Rightarrow> map_of d k)"
proof (induction new arbitrary: d)
  case Nil then show ?case by (simp add: dict_update_def)
next
  case (Cons kv new)
  obtain k' v' where kv: "kv = (k', v')" by (cases kv)
  have "dict_update d (kv # new) = dict_update (AList.update k' v' d) new"
    by (simp add: dict_update_def kv)
  then show ?case
    by (simp add: Cons.IH kv update_conv' map_add_def split: option.splits)
qed

lemma map_of_unique:
  assumes "(k, v) \<in> set xs" and "\<forall>v'. (k, v') \<in> set xs \<longrightarrow> v' = v"
  shows "map_of xs k = Some v"
proof -
  have "map_of xs k \<noteq> None"
    using assms(1) by (metis map_of_eq_None_iff image_eqI fst_conv)
  then obtain v' where v': "map_of xs k = Some v'" by blast
  then have "(k, v') \<in> set xs" by (rule map_of_SomeD)
  then show ?thesis using assms(2) v' by simp
qed

lemma map_of_absent: "k \<notin> fst ` set xs \<Longrightarrow> map_of xs k = None"
  by (simp add: map_of_eq_None_iff)

lemma get_loss_keys:
  assumes "get_loss K crit loss outputs targets indices nb = Inr d"
  shows "map fst d = keys_of loss"
proof -
  consider "loss = ''labels''" | "loss = ''cardinality''" | "loss = ''boxes''" | "loss = ''masks''"
    | "loss \<noteq> ''labels''" "loss \<noteq> ''cardinality''" "loss \<noteq> ''boxes''" "loss \<noteq> ''masks''"
    by blast
  then show ?thesis
  proof cases
    case 1
    then show ?thesis using assms
      by (auto simp: get_loss_def keys_of_def loss_labels_def Let_def
          split: sum.splits if_splits)
  next
    case 2
    then show ?thesis using assms
      by (auto simp: get_loss_def keys_of_def loss_cardinality_def Let_def split: if_splits)
  next
    case 3
    then show ?thesis using assms
      by (auto simp: get_loss_def keys_of_def loss_boxes_def Let_def
          split: sum.splits if_splits)
  next
    case 4
    then show ?thesis using assms
      by (auto simp: get_loss_def keys_of_def loss_masks_def
          split: sum.splits option.splits prod.splits)
  next
    case 5
    then show ?thesis using assms by (simp add: get_loss_def)
  qed
qed

lemma keys_of_base: "set (keys_of loss) \<subseteq> set base_keys"
  by (auto simp: keys_of_def base_keys_def)

lemma keys_of_distinct: "distinct (keys_of loss)"
  by (simp add: keys_of_def)

lemma keys_of_disjoint:
  "k \<in> set (keys_of l) \<Longrightarrow> k \<in> set (keys_of l') \<Longrightarrow> l = l'"
  by (auto simp: keys_of_def split: if_splits)

lemma keys_of_masks: "k \<in> set (keys_of l) \<Longrightarrow> k \<in> {''loss_mask'', ''loss_dice''} \<Longrightarrow> l = ''masks''"
  by (auto simp: keys_of_def split: if_splits)

lemma losses_loop_Inr:
  "losses_loop K crit outputs targets indices nb ls acc = Inr L \<Longrightarrow>
   (\<forall>loss \<in> set ls. \<exists>d. get_loss K crit loss outputs targets indices nb = Inr d)
   \<and> L = dict_update acc
            (concat (map (\<lambda>loss. dict_of (get_loss K crit loss outputs targets indices nb)) ls))"
proof (induction ls arbitrary: acc)
  case Nil then show ?case by (simp add: dict_update_Nil)
next
  case (Cons loss ls)
  then obtain d where d: "get_loss K crit loss outputs targets indices nb = Inr d"
    by (auto split: sum.splits)
  with Cons.prems have "losses_loop K crit outputs targets indices nb ls (dict_update acc d) = Inr L"
    by simp
  from Cons.IH [OF this] show ?case
    using d by (simp add: dict_update_append dict_of_def)
qed

lemma aux_losses_loop_Inr:
  "aux_losses_loop K crit i aux targets indices nb ls acc = Inr L \<Longrightarrow>
   (\<forall>loss \<in> set ls. loss \<noteq> ''masks'' \<longrightarrow> (\<exists>d. get_loss K crit loss aux targets indices nb = Inr d))
   \<and> L = dict_update acc
            (concat (map (\<lambda>loss. map (\<lambda>(k, v). (suffixed k i, v))
                                 (dict_of (get_loss K crit loss aux targets indices nb)))
                       (filter (\<lambda>loss. loss \<noteq> ''masks'') ls)))"
proof (induction ls arbitrary: acc)
  case Nil then show ?case by (simp add: dict_update_Nil)
next
  case (Cons loss ls)
  show ?case
  proof (cases "loss = ''masks''")
    case True
    with Cons.prems have "aux_losses_loop K crit i aux targets indices nb ls acc = Inr L" by simp
    from Cons.IH [OF this] show ?thesis using True by simp
  next
    case False
    with Cons.prems obtain d where d: "get_loss K crit loss aux targets indices nb = Inr d"
      by (auto split: sum.splits)
    with Cons.prems False have "aux_losses_loop K crit i aux targets indices nb ls
        (dict_update acc (map (\<lambda>(k, v). (suffixed k i, v)) d)) = Inr L"
      by simp
    from Cons.IH [OF this] show ?thesis
      using d False by (simp add: dict_update_append dict_of_def)
  qed
qed

lemma aux_loop_Inr:
  "aux_loop K crit targets nb i auxs acc = Inr L \<Longrightarrow>
   (\<forall>j < length auxs. \<exists>ind. matcher crit (auxs ! j) targets = Inr ind
        \<and> (\<forall>loss \<in> set (losses crit). loss \<noteq> ''masks'' \<longrightarrow>
              (\<exists>d. get_loss K crit loss (auxs ! j) targets ind nb = Inr d)))
   \<and> L = dict_update acc
            (concat (map (\<lambda>j. aux_items K crit targets nb (i + j) (auxs ! j)) [0..<length auxs]))"
proof (induction auxs arbitrary: i acc)
  case Nil then show ?case by (simp add: dict_update_Nil)
next
  case (Cons aux auxs)
  from Cons.prems obtain ind where ind: "matcher crit aux targets = Inr ind"
    by (auto split: sum.splits)
  with Cons.prems obtain acc' where
    acc': "aux_losses_loop K crit i aux targets ind nb (losses crit) acc = Inr acc'"
    by (auto split: sum.splits)
  with Cons.prems ind have rest: "aux_loop K crit targets nb (Suc i) auxs acc' = Inr L" by simp
  note a = aux_losses_loop_Inr [OF acc']
  note r = Cons.IH [OF rest]
  have items: "acc' = dict_update acc (aux_items K crit targets nb i aux)"
    using a ind by (simp add: aux_items_def indices_of_def)
  have shift: "map (\<lambda>j. aux_items K crit targets nb (i + j) ((aux # auxs) ! j)) [0..<length (aux # auxs)]
      = aux_items K crit targets nb i aux
        # map (\<lambda>j. aux_items K crit targets nb (Suc i + j) (auxs ! j)) [0..<length auxs]"
  proof -
    have "[0..<length (aux # auxs)] = 0 # map Suc [0..<length auxs]"
      by (simp add: upt_conv_Cons map_Suc_upt del: upt_Suc)
    then show ?thesis by (simp add: comp_def)
  qed
  have L: "L = dict_update acc
      (concat (map (\<lambda>j. aux_items K crit targets nb (i + j) ((aux # auxs) ! j)) [0..<length (aux # auxs)]))"
    using r items by (simp only: shift concat.simps dict_update_append [symmetric])
  have ok: "\<exists>ind. matcher crit ((aux # auxs) ! j) targets = Inr ind
        \<and> (\<forall>loss \<in> set (losses crit). loss \<noteq> ''masks'' \<longrightarrow>
              (\<exists>d. get_loss K crit loss ((aux # auxs) ! j) targets ind nb = Inr d))"
    if j: "j < length (aux # auxs)" for j
  proof (cases j)
    case 0
    then show ?thesis using ind a by auto
  next
    case (Suc j')
    then show ?thesis using r j by auto
  qed
  show ?case using ok L by blast
qed

lemma forward_Inr:
  assumes "SetCriterion_forward K crit outputs targets = Inr L"
  shows "L = dict_update [] (all_items K crit outputs targets)"
    and "\<exists>ind. matcher crit (final outputs) targets = Inr ind
           \<and> (\<forall>loss \<in> set (losses crit).
                 \<exists>d. get_loss K crit loss (final outputs) targets ind (num_boxes_of targets) = Inr d)"
    and "auxiliary_outputs outputs = Some auxs \<Longrightarrow> j < length auxs \<Longrightarrow>
         \<exists>ind. matcher crit (auxs ! j) targets = Inr ind
           \<and> (\<forall>loss \<in> set (losses crit). loss \<noteq> ''masks'' \<longrightarrow>
                 (\<exists>d. get_loss K crit loss (auxs ! j) targets ind (num_boxes_of targets) = Inr d))"
proof -
  let ?nb = "num_boxes_of targets"
  from assms obtain ind where ind: "matcher crit (final outputs) targets = Inr ind"
    by (auto simp: SetCriterion_forward_def split: sum.splits)
  with assms obtain L0 where
    L0: "losses_loop K crit (final outputs) targets ind ?nb (losses crit) [] = Inr L0"
    by (auto simp: SetCriterion_forward_def Let_def split: sum.splits)
  note b = losses_loop_Inr [OF L0]
  have L0': "L0 = dict_update [] (base_items K crit (final outputs) targets)"
    using b ind by (simp add: base_items_def indices_of_def)
  show "\<exists>ind. matcher crit (final outputs) targets = Inr ind
           \<and> (\<forall>loss \<in> set (losses crit).
                 \<exists>d. get_loss K crit loss (final outputs) targets ind ?nb = Inr d)"
    using ind b by blast
  show "L = dict_update [] (all_items K crit outputs targets)"
  proof (cases "auxiliary_outputs outputs")
    case None
    then have "L = L0" using assms ind L0 by (simp add: SetCriterion_forward_def Let_def)
    then show ?thesis using L0' None by (simp add: all_items_def)
  next
    case (Some auxs')
    then have "aux_loop K crit targets ?nb 0 auxs' L0 = Inr L"
      using assms ind L0 by (simp add: SetCriterion_forward_def Let_def)
    from aux_loop_Inr [OF this] show ?thesis
      using L0' Some by (simp add: all_items_def dict_update_append)
  qed
  show "\<exists>ind. matcher crit (auxs ! j) targets = Inr ind
           \<and> (\<forall>loss \<in> set (losses crit). loss \<noteq> ''masks'' \<longrightarrow>
                 (\<exists>d. get_loss K crit loss (auxs ! j) targets ind ?nb = Inr d))"
    if a: "auxiliary_outputs outputs = Some auxs" and j: "j < length auxs"
  proof -
    have "aux_loop K crit targets ?nb 0 auxs L0 = Inr L"
      using assms ind L0 a by (simp add: SetCriterion_forward_def Let_def)
    from aux_loop_Inr [OF this] j show ?thesis by blast
  qed
qed

lemma dict_of_keys:
  "(k, v) \<in> set (dict_of (get_loss K crit loss outputs targets indices nb)) \<Longrightarrow>
   k \<in> set (keys_of loss)"
proof -
  assume m: "(k, v) \<in> set (dict_of (get_loss K crit loss outputs targets indices nb))"
  then obtain d where d: "get_loss K crit loss outputs targets indices nb = Inr d"
    by (cases "get_loss K crit loss outputs targets indices nb") (auto simp: dict_of_def)
  have "k \<in> fst ` set d" using m d by (force simp: dict_of_def)
  then show ?thesis using get_loss_keys [OF d] by (metis set_map)
qed

lemma dict_of_unique:
  assumes "(k, v) \<in> set (dict_of (get_loss K crit loss outputs targets indices nb))"
      and "(k, v') \<in> set (dict_of (get_loss K crit loss outputs targets indices nb))"
  shows "v = v'"
proof -
  from assms(1) obtain d where d: "get_loss K crit loss outputs targets indices nb = Inr d"
    by (cases "get_loss K crit loss outputs targets indices nb") (auto simp: dict_of_def)
  have "distinct (map fst d)" using get_loss_keys [OF d] keys_of_distinct by simp
  then show ?thesis using assms d by (auto simp: dict_of_def dest: eq_key_imp_eq_value)
qed

lemma base_items_keys:
  "(k, v) \<in> set (base_items K crit outputs targets) \<Longrightarrow> k \<in> set base_keys"
  using keys_of_base by (auto simp: base_items_def dest!: dict_of_keys)

lemma aux_items_mem:
  assumes "(key, v) \<in> set (aux_items K crit targets nb j aux)"
  obtains loss k where "loss \<in> set (losses crit)" "loss \<noteq> ''masks''" "key = suffixed k j"
    "(k, v) \<in> set (dict_of (get_loss K crit loss aux targets
                              (indices_of (matcher crit aux targets)) nb))"
  using assms by (auto simp: aux_items_def)

lemma all_items_mem:
  assumes "(key, v) \<in> set (all_items K crit outputs targets)"
  shows "key \<in> set base_keys
       \<or> (\<exists>auxs j loss k. auxiliary_outputs outputs = Some auxs \<and> j < length auxs
            \<and> loss \<in> set (losses crit) \<and> loss \<noteq> ''masks'' \<and> key = suffixed k j
            \<and> (k, v) \<in> set (dict_of (get_loss K crit loss (auxs ! j) targets
                    (indices_of (matcher crit (auxs ! j) targets)) (num_boxes_of targets))))"
proof (cases "(key, v) \<in> set (base_items K crit (final outputs) targets)")
  case True
  then show ?thesis using base_items_keys by blast
next
  case False
  show ?thesis
  proof (cases "auxiliary_outputs outputs")
    case None
    then show ?thesis using assms False by (simp add: all_items_def)
  next
    case (Some auxs)
    then have "(key, v) \<in> set (concat (map (\<lambda>j. aux_items K crit targets (num_boxes_of targets) j (auxs ! j))
                      [0..<length auxs]))"
      using assms False by (simp add: all_items_def)
    then obtain j where j: "j < length auxs"
      and m: "(key, v) \<in> set (aux_items K crit targets (num_boxes_of targets) j (auxs ! j))"
      by auto
    from m obtain loss k where "loss \<in> set (losses crit)" "loss \<noteq> ''masks''" "key = suffixed k j"
      "(k, v) \<in> set (dict_of (get_loss K crit loss (auxs ! j) targets
                              (indices_of (matcher crit (auxs ! j) targets)) (num_boxes_of targets)))"
      by (rule aux_items_mem)
    then show ?thesis using Some j by blast
  qed
qed

lemma concat_map_mem: "x \<in> set xs \<Longrightarrow> y \<in> set (f x) \<Longrightarrow> y \<in> set (concat (map f xs))"
  by auto

lemma map_of_forward:
  assumes "SetCriterion_forward K crit outputs targets = Inr L"
  shows "map_of L key = map_of (rev (all_items K crit outputs targets)) key"
  using forward_Inr(1) [OF assms] by (simp add: map_of_dict_update split: option.splits)

lemma aux_entry:
  assumes fw: "SetCriterion_forward K crit outputs targets = Inr L"
      and a: "auxiliary_outputs outputs = Some auxs" and i: "i < length auxs"
      and l: "loss \<in> set (losses crit)" and nm: "loss \<noteq> ''masks''"
      and ind: "matcher crit (auxs ! i) targets = Inr ind"
      and d: "get_loss K crit loss (auxs ! i) targets ind (num_boxes_of targets) = Inr d"
      and kv: "(k, v) \<in> set d"
  shows "map_of L (suffixed k i) = Some v"
proof -
  let ?items = "all_items K crit outputs targets"
  let ?key = "suffixed k i"
  have dof: "dict_of (get_loss K crit loss (auxs ! i) targets
                (indices_of (matcher crit (auxs ! i) targets)) (num_boxes_of targets)) = d"
    using ind d by (simp add: dict_of_def indices_of_def)
  have "(?key, v) \<in> set (map (\<lambda>(k, v). (suffixed k i, v)) d)"
    using kv by (force simp del: suffixed_def)
  then have "(?key, v) \<in> set (map (\<lambda>(k, v). (suffixed k i, v))
       (dict_of (get_loss K crit loss (auxs ! i) targets
                (indices_of (matcher crit (auxs ! i) targets)) (num_boxes_of targets))))"
    by (simp only: dof)
  moreover have "loss \<in> set (filter (\<lambda>loss. loss \<noteq> ''masks'') (losses crit))"
    using l nm by simp
  ultimately have "(?key, v) \<in> set (aux_items K crit targets (num_boxes_of targets) i (auxs ! i))"
    unfolding aux_items_def by (rule concat_map_mem [rotated])
  moreover have "i \<in> set [0..<length auxs]" using i by simp
  ultimately have "(?key, v) \<in> set (concat (map (\<lambda>j. aux_items K crit targets (num_boxes_of targets) j (auxs ! j))
                      [0..<length auxs]))"
    by (rule concat_map_mem [rotated])
  then have mem: "(?key, v) \<in> set ?items"
    using a by (simp add: all_items_def)
  have uniq: "v' = v" if m: "(?key, v') \<in> set ?items" for v'
  proof -
    from all_items_mem [OF m] suffixed_not_base [of ?key k i]
    obtain auxs' j loss' k' where
      j: "auxiliary_outputs outputs = Some auxs'" "j < length auxs'"
      and l': "loss' \<in> set (losses crit)" "loss' \<noteq> ''masks''" and e: "?key = suffixed k' j"
      and m': "(k', v') \<in> set (dict_of (get_loss K crit loss' (auxs' ! j) targets
                    (indices_of (matcher crit (auxs' ! j) targets)) (num_boxes_of targets)))"
      by blast
    have kj: "k' = k" "j = i" using suffixed_inj [OF e] by simp_all
    have au: "auxs' = auxs" using a j(1) by simp
    have "k \<in> set (keys_of loss')" using dict_of_keys [OF m'] kj by simp
    moreover have "k \<in> set (keys_of loss)"
      using get_loss_keys [OF d] kv by (metis fst_conv image_eqI set_map)
    ultimately have "loss' = loss" by (rule keys_of_disjoint)
    then have "(k, v') \<in> set d" using m' kj au dof by simp
    moreover have "distinct (map fst d)" using get_loss_keys [OF d] keys_of_distinct by simp
    ultimately show ?thesis using kv by (auto dest: eq_key_imp_eq_value)
  qed
  have "map_of (rev ?items) ?key = Some v"
  proof (rule map_of_unique)
    show "(?key, v) \<in> set (rev ?items)" using mem by (simp only: set_rev)
    show "\<forall>v'. (?key, v') \<in> set (rev ?items) \<longrightarrow> v' = v"
    proof (intro allI impI)
      fix v' assume "(?key, v') \<in> set (rev ?items)"
      then have "(?key, v') \<in> set ?items" by (simp only: set_rev)
      then show "v' = v" by (rule uniq)
    qed
  qed
  then show ?thesis using map_of_forward [OF fw] by simp
qed

lemma mask_absent:
  assumes fw: "SetCriterion_forward K crit outputs targets = Inr L"
      and k: "k \<in> {''loss_mask'', ''loss_dice''}"
  shows "map_of L (suffixed k i) = None"
proof -
  let ?items = "all_items K crit outputs targets"
  have "suffixed k i \<notin> fst ` set ?items"
  proof
    assume "suffixed k i \<in> fst ` set ?items"
    then obtain v where m: "(suffixed k i, v) \<in> set ?items" by force
    from all_items_mem [OF m] suffixed_not_base [of "suffixed k i" k i]
    obtain auxs' j loss' k' where
      l': "loss' \<in> set (losses crit)" "loss' \<noteq> ''masks''" and e: "suffixed k i = suffixed k' j"
      and m': "(k', v) \<in> set (dict_of (get_loss K crit loss' (auxs' ! j) targets
                    (indices_of (matcher crit (auxs' ! j) targets)) (num_boxes_of targets)))"
      by blast
    have "k' = k" using suffixed_inj [OF e] by simp
    then have "k \<in> set (keys_of loss')" using dict_of_keys [OF m'] by simp
    then have "loss' = ''masks''" using k by (rule keys_of_masks)
    then show False using l'(2) by simp
  qed
  then have "suffixed k i \<notin> fst ` set (rev ?items)" by simp
  then have "map_of (rev ?items) (suffixed k i) = None" by (rule map_of_absent)
  then show ?thesis using map_of_forward [OF fw] by simp
qed

lemma keys_one: "map fst d = [k] \<Longrightarrow> \<exists>v. d = [(k, v)]"
  by (cases d) auto

lemma keys_two: "map fst d = [k1, k2] \<Longrightarrow> \<exists>v1 v2. d = [(k1, v1), (k2, v2)]"
proof -
  assume a: "map fst d = [k1, k2]"
  then obtain x y where d: "d = [x, y]"
    by (cases d; cases "tl d") auto
  then show ?thesis using a by (cases x; cases y) auto
qed

lemma three_losses_row:
  assumes "\<forall>loss \<in> set [''labels'', ''boxes'', ''cardinality''].
             \<exists>d. get_loss K crit loss outputs targets ind nb = Inr d"
  shows "\<exists>t. concat (map (\<lambda>loss. map (\<lambda>(k, v). (key k, v))
                         (dict_of (get_loss K crit loss outputs targets ind nb)))
                [''labels'', ''boxes'', ''cardinality'']) = layer_row key t"
proof -
  from assms obtain d1 d2 d3 where
    d: "get_loss K crit ''labels'' outputs targets ind nb = Inr d1"
       "get_loss K crit ''boxes'' outputs targets ind nb = Inr d2"
       "get_loss K crit ''cardinality'' outputs targets ind nb = Inr d3"
    by auto
  have "map fst d1 = [''loss_ce'']" using get_loss_keys [OF d(1)] by (simp add: keys_of_def)
  from keys_one [OF this] obtain ce where d1: "d1 = [(''loss_ce'', ce)]" ..
  have "map fst d2 = [''loss_bbox'', ''loss_giou'']"
    using get_loss_keys [OF d(2)] by (simp add: keys_of_def)
  from keys_two [OF this] obtain bb gi where d2: "d2 = [(''loss_bbox'', bb), (''loss_giou'', gi)]"
    by blast
  have "map fst d3 = [''cardinality_error'']"
    using get_loss_keys [OF d(3)] by (simp add: keys_of_def)
  from keys_one [OF this] obtain ca where d3: "d3 = [(''cardinality_error'', ca)]" ..
  have "concat (map (\<lambda>loss. map (\<lambda>(k, v). (key k, v))
                         (dict_of (get_loss K crit loss outputs targets ind nb)))
                [''labels'', ''boxes'', ''cardinality'']) = layer_row key (ce, bb, gi, ca)"
    by (simp add: d d1 d2 d3 dict_of_def layer_row_def)
  then show ?thesis by blast
qed

lemma distinct_suffixed:
  "distinct ks \<Longrightarrow> distinct (concat (map (\<lambda>j. map (\<lambda>k. suffixed k j) ks) [0..<n]))"
proof (induction n)
  case 0 then show ?case by simp
next
  case (Suc n)
  have "distinct (map (\<lambda>k. suffixed k n) ks)"
    using Suc.prems by (auto simp: distinct_map inj_on_def dest: suffixed_inj)
  moreover have "set (concat (map (\<lambda>j. map (\<lambda>k. suffixed k j) ks) [0..<n]))
      \<inter> set (map (\<lambda>k. suffixed k n) ks) = {}"
    by (auto dest: suffixed_inj)
  ultimately show ?case using Suc by simp
qed

lemma foldl_dict_update:
  "foldl (\<lambda>a i. dict_update a (g i)) acc xs = dict_update acc (concat (map g xs))"
  by (induction xs arbitrary: acc) (simp_all add: dict_update_Nil dict_update_append)

lemma weight_dict_aux:
  assumes "auxiliary_loss config"
  shows "weight_dict config
       = [(''loss_ce'', 1), (''loss_bbox'', bbox_loss_coefficient config),
          (''loss_giou'', giou_loss_coefficient config)]
         @ concat (map (\<lambda>i. [(suffixed ''loss_ce'' i, 1),
                              (suffixed ''loss_bbox'' i, bbox_loss_coefficient config),
                              (suffixed ''loss_giou'' i, giou_loss_coefficient config)])
                     [0..<nat (decoder_layers config - 1)])"
    and "distinct (map fst (weight_dict config))"
proof -
  let ?w0 = "[(''loss_ce'', 1::real), (''loss_bbox'', bbox_loss_coefficient config),
          (''loss_giou'', giou_loss_coefficient config)]"
  let ?m = "nat (decoder_layers config - 1)"
  let ?B = "concat (map (\<lambda>i. map (\<lambda>(k, v). (suffixed k i, v)) ?w0) [0..<?m])"
  have keysB: "map fst ?B = concat (map (\<lambda>j. map (\<lambda>k. suffixed k j) weight_keys) [0..<?m])"
    by (simp add: map_concat comp_def weight_keys_def)
  have dB: "distinct (map fst ?B)"
    unfolding keysB by (rule distinct_suffixed) (simp add: weight_keys_def)
  have A: "dict_update [] ?B = ?B"
    using dict_update_fresh [OF dB, of "[]"] by simp
  have disj: "set (map fst ?B) \<inter> set (map fst ?w0) = {}"
  proof -
    have "set (map fst ?w0) \<subseteq> set base_keys" by (simp add: base_keys_def)
    moreover have "\<forall>x \<in> set (map fst ?B). x \<notin> set base_keys"
      unfolding keysB using suffixed_not_base by auto
    ultimately show ?thesis by blast
  qed
  have W: "weight_dict config = ?w0 @ ?B"
    using assms dict_update_fresh [OF dB disj]
    by (simp only: weight_dict_def Let_def foldl_dict_update A if_True)
  show "weight_dict config = ?w0 @ concat (map (\<lambda>i. [(suffixed ''loss_ce'' i, 1),
                              (suffixed ''loss_bbox'' i, bbox_loss_coefficient config),
                              (suffixed ''loss_giou'' i, giou_loss_coefficient config)]) [0..<?m])"
    unfolding W by simp
  have "distinct (map fst ?w0)" by simp
  then show "distinct (map fst (weight_dict config))"
    unfolding W using dB disj by (simp only: map_append distinct_append) blast
qed

lemma weight_lookup:
  assumes "auxiliary_loss config"
  shows "map_of (weight_dict config) ''loss_ce'' = Some 1"
    and "map_of (weight_dict config) ''loss_bbox'' = Some (bbox_loss_coefficient config)"
    and "map_of (weight_dict config) ''loss_giou'' = Some (giou_loss_coefficient config)"
    and "map_of (weight_dict config) ''cardinality_error'' = None"
    and "j < nat (decoder_layers config - 1) \<Longrightarrow>
           map_of (weight_dict config) (suffixed ''loss_ce'' j) = Some 1"
    and "j < nat (decoder_layers config - 1) \<Longrightarrow>
           map_of (weight_dict config) (suffixed ''loss_bbox'' j)
             = Some (bbox_loss_coefficient config)"
    and "j < nat (decoder_layers config - 1) \<Longrightarrow>
           map_of (weight_dict config) (suffixed ''loss_giou'' j)
             = Some (giou_loss_coefficient config)"
    and "map_of (weight_dict config) (suffixed ''cardinality_error'' j) = None"
proof -
  let ?m = "nat (decoder_layers config - 1)"
  let ?row = "\<lambda>i. [(suffixed ''loss_ce'' i, 1::real),
                              (suffixed ''loss_bbox'' i, bbox_loss_coefficient config),
                              (suffixed ''loss_giou'' i, giou_loss_coefficient config)]"
  note W = weight_dict_aux(1) [OF assms]
  note D = weight_dict_aux(2) [OF assms]
  have base: "x \<in> set weight_keys \<Longrightarrow> x \<notin> fst ` set (concat (map ?row [0..<?m]))" for x
  proof
    assume x: "x \<in> set weight_keys" and "x \<in> fst ` set (concat (map ?row [0..<?m]))"
    then obtain k i where "x = suffixed k i" by auto
    moreover have "x \<in> set base_keys" using x by (auto simp: weight_keys_def base_keys_def)
    ultimately show False using suffixed_not_base by blast
  qed
  show "map_of (weight_dict config) ''loss_ce'' = Some 1"
    using D by (simp only: map_of_eq_Some_iff) (simp add: W)
  show "map_of (weight_dict config) ''loss_bbox'' = Some (bbox_loss_coefficient config)"
    using D by (simp only: map_of_eq_Some_iff) (simp add: W)
  show "map_of (weight_dict config) ''loss_giou'' = Some (giou_loss_coefficient config)"
    using D by (simp only: map_of_eq_Some_iff) (simp add: W)
  show "map_of (weight_dict config) ''cardinality_error'' = None"
  proof (rule map_of_absent, rule notI)
    assume "''cardinality_error'' \<in> fst ` set (weight_dict config)"
    then have "''cardinality_error'' \<in> fst ` set (concat (map ?row [0..<?m]))"
      unfolding W by auto
    then obtain k i where "''cardinality_error'' = suffixed k i" by auto
    then show False
      using suffixed_not_base [of "''cardinality_error''" k i] by (simp add: base_keys_def)
  qed
  show "map_of (weight_dict config) (suffixed ''cardinality_error'' j) = None"
  proof (rule map_of_absent, rule notI)
    assume "suffixed ''cardinality_error'' j \<in> fst ` set (weight_dict config)"
    then consider "suffixed ''cardinality_error'' j \<in> set weight_keys"
      | "suffixed ''cardinality_error'' j \<in> fst ` set (concat (map ?row [0..<?m]))"
      unfolding W by (auto simp: weight_keys_def)
    then show False
    proof cases
      case 1
      then have "suffixed ''cardinality_error'' j \<in> set base_keys"
        by (auto simp: weight_keys_def base_keys_def)
      then show False using suffixed_not_base by blast
    next
      case 2
      then obtain k i where "suffixed ''cardinality_error'' j = suffixed k i" "k \<in> set weight_keys"
        by (auto simp: weight_keys_def)
      then show False using suffixed_inj [of "''cardinality_error''" j k i]
        by (auto simp: weight_keys_def)
    qed
  qed
  assume j: "j < ?m"
  have mem: "set (?row j) \<subseteq> set (weight_dict config)"
    unfolding W using j by auto
  show "map_of (weight_dict config) (suffixed ''loss_ce'' j) = Some 1"
    using D mem by (simp only: map_of_eq_Some_iff) simp
  show "map_of (weight_dict config) (suffixed ''loss_bbox'' j) = Some (bbox_loss_coefficient config)"
    using D mem by (simp only: map_of_eq_Some_iff) simp
  show "map_of (weight_dict config) (suffixed ''loss_giou'' j) = Some (giou_loss_coefficient config)"
    using D mem by (simp only: map_of_eq_Some_iff) simp
qed

lemma layer_row_keys: "map fst (layer_row key t) = map key loss_keys4"
  by (cases t) (simp add: layer_row_def loss_keys4_def)

lemma concat_map_concat:
  "concat (map f (concat xss)) = concat (map (\<lambda>xs. concat (map f xs)) xss)"
  by (induction xss) auto

lemma forward_three:
  assumes fw: "SetCriterion_forward K crit outputs targets = Inr L"
      and ls: "losses crit = [''labels'', ''boxes'', ''cardinality'']"
      and a: "auxiliary_outputs outputs = Some auxs"
  shows "\<exists>t0 T. L = layer_row (\<lambda>k. k) t0
                     @ concat (map (\<lambda>j. layer_row (\<lambda>k. suffixed k j) (T j)) [0..<length auxs])"
    and "distinct (map fst L)"
proof -
  let ?nb = "num_boxes_of targets"
  let ?n = "length auxs"
  from forward_Inr(2) [OF fw] obtain ind0 where
    ind0: "matcher crit (final outputs) targets = Inr ind0"
    and ok0: "\<forall>loss \<in> set [''labels'', ''boxes'', ''cardinality''].
               \<exists>d. get_loss K crit loss (final outputs) targets ind0 ?nb = Inr d"
    unfolding ls by blast
  from three_losses_row [OF ok0, of "\<lambda>k. k"] obtain t0 where
    "concat (map (\<lambda>loss. map (\<lambda>(k, v). (k, v))
                         (dict_of (get_loss K crit loss (final outputs) targets ind0 ?nb)))
                [''labels'', ''boxes'', ''cardinality'']) = layer_row (\<lambda>k. k) t0"
    by blast
  then have b: "base_items K crit (final outputs) targets = layer_row (\<lambda>k. k) t0"
    by (simp add: base_items_def ls ind0 indices_of_def)
  have "\<exists>t. aux_items K crit targets ?nb j (auxs ! j) = layer_row (\<lambda>k. suffixed k j) t"
    if j: "j < ?n" for j
  proof -
    from forward_Inr(3) [OF fw a j] obtain ind where
      ind: "matcher crit (auxs ! j) targets = Inr ind"
      and ok: "\<forall>loss \<in> set [''labels'', ''boxes'', ''cardinality''].
               \<exists>d. get_loss K crit loss (auxs ! j) targets ind ?nb = Inr d"
      unfolding ls by auto
    from three_losses_row [OF ok, of "\<lambda>k. suffixed k j"] obtain t where
      "concat (map (\<lambda>loss. map (\<lambda>(k, v). (suffixed k j, v))
                         (dict_of (get_loss K crit loss (auxs ! j) targets ind ?nb)))
                [''labels'', ''boxes'', ''cardinality'']) = layer_row (\<lambda>k. suffixed k j) t"
      by blast
    then have "aux_items K crit targets ?nb j (auxs ! j) = layer_row (\<lambda>k. suffixed k j) t"
      by (simp add: aux_items_def ls ind indices_of_def)
    then show ?thesis by blast
  qed
  then have "\<forall>j. \<exists>t. j < ?n \<longrightarrow>
      aux_items K crit targets ?nb j (auxs ! j) = layer_row (\<lambda>k. suffixed k j) t"
    by blast
  from choice [OF this] obtain T where
    T: "\<forall>j. j < ?n \<longrightarrow> aux_items K crit targets ?nb j (auxs ! j) = layer_row (\<lambda>k. suffixed k j) (T j)"
    by blast
  have meq: "map (\<lambda>j. aux_items K crit targets ?nb j (auxs ! j)) [0..<?n]
      = map (\<lambda>j. layer_row (\<lambda>k. suffixed k j) (T j)) [0..<?n]"
    using T by (intro map_cong refl) simp
  have items: "all_items K crit outputs targets
      = layer_row (\<lambda>k. k) t0 @ concat (map (\<lambda>j. layer_row (\<lambda>k. suffixed k j) (T j)) [0..<?n])"
    by (simp only: all_items_def a b option.case meq)
  let ?items = "layer_row (\<lambda>k. k) t0 @ concat (map (\<lambda>j. layer_row (\<lambda>k. suffixed k j) (T j)) [0..<?n])"
  have keys: "map fst ?items
      = loss_keys4 @ concat (map (\<lambda>j. map (\<lambda>k. suffixed k j) loss_keys4) [0..<?n])"
    by (simp add: layer_row_keys map_concat comp_def)
  have d4: "distinct loss_keys4" by (simp add: loss_keys4_def)
  have "set loss_keys4 \<subseteq> set base_keys" by (auto simp: loss_keys4_def base_keys_def)
  then have disj: "set loss_keys4
      \<inter> set (concat (map (\<lambda>j. map (\<lambda>k. suffixed k j) loss_keys4) [0..<?n])) = {}"
    using suffixed_not_base by auto
  have dist: "distinct (map fst ?items)"
    unfolding keys using d4 distinct_suffixed [OF d4, of ?n] disj
    by (simp only: distinct_append)
  have "dict_update [] ?items = [] @ ?items"
    by (rule dict_update_fresh [OF dist]) simp
  then have L: "L = ?items" using forward_Inr(1) [OF fw] items by simp
  show "\<exists>t0 T. L = layer_row (\<lambda>k. k) t0
                     @ concat (map (\<lambda>j. layer_row (\<lambda>k. suffixed k j) (T j)) [0..<length auxs])"
    using L by blast
  show "distinct (map fst L)" using dist L by simp
qed

lemma total_three:
  assumes L: "L = layer_row (\<lambda>k. k) (ce0, bb0, gi0, ca0)
                 @ concat (map (\<lambda>j. layer_row (\<lambda>k. suffixed k j) (ce j, bb j, gi j, ca j)) [0..<n])"
      and cfg: "auxiliary_loss config" and m: "nat (decoder_layers config - 1) = n"
  shows "total_loss config L
       = tsum ([tscale ce0 1, tscale bb0 (bbox_loss_coefficient config),
                tscale gi0 (giou_loss_coefficient config)]
               @ concat (map (\<lambda>j. [tscale (ce j) 1, tscale (bb j) (bbox_loss_coefficient config),
                                     tscale (gi j) (giou_loss_coefficient config)]) [0..<n]))"
proof -
  let ?f = "\<lambda>(k, v). case map_of (weight_dict config) k of None \<Rightarrow> [] | Some w \<Rightarrow> [tscale v w]"
  note w = weight_lookup [OF cfg]
  have base: "concat (map ?f (layer_row (\<lambda>k. k) (ce0, bb0, gi0, ca0)))
      = [tscale ce0 1, tscale bb0 (bbox_loss_coefficient config),
         tscale gi0 (giou_loss_coefficient config)]"
    by (simp add: layer_row_def w(1-4))
  have row: "concat (map ?f (layer_row (\<lambda>k. suffixed k j) (ce j, bb j, gi j, ca j)))
      = [tscale (ce j) 1, tscale (bb j) (bbox_loss_coefficient config),
         tscale (gi j) (giou_loss_coefficient config)]" if "j < n" for j
  proof -
    have j: "j < nat (decoder_layers config - 1)" using that m by simp
    show ?thesis by (simp add: layer_row_def w(5-7) [OF j] w(8))
  qed
  have rows: "map (\<lambda>j. concat (map ?f (layer_row (\<lambda>k. suffixed k j) (ce j, bb j, gi j, ca j)))) [0..<n]
      = map (\<lambda>j. [tscale (ce j) 1, tscale (bb j) (bbox_loss_coefficient config),
                   tscale (gi j) (giou_loss_coefficient config)]) [0..<n]"
    using row by (intro map_cong refl) simp
  have "concat (map ?f L)
      = concat (map ?f (layer_row (\<lambda>k. k) (ce0, bb0, gi0, ca0)))
        @ concat (map (\<lambda>j. concat (map ?f (layer_row (\<lambda>k. suffixed k j) (ce j, bb j, gi j, ca j)))) [0..<n])"
    unfolding L by (simp only: map_append concat_append concat_map_concat map_map comp_def)
  then have "concat (map ?f L)
      = [tscale ce0 1, tscale bb0 (bbox_loss_coefficient config),
         tscale gi0 (giou_loss_coefficient config)]
        @ concat (map (\<lambda>j. [tscale (ce j) 1, tscale (bb j) (bbox_loss_coefficient config),
                             tscale (gi j) (giou_loss_coefficient config)]) [0..<n])"
    by (simp only: base rows)
  then show ?thesis by (simp only: total_loss_def)
qed

lemma lookup_three:
  assumes L: "L = layer_row (\<lambda>k. k) (ce0, bb0, gi0, ca0)
                 @ concat (map (\<lambda>j. layer_row (\<lambda>k. suffixed k j) (ce j, bb j, gi j, ca j)) [0..<n])"
      and dist: "distinct (map fst L)"
  shows "map_of L ''loss_ce'' = Some ce0" and "map_of L ''loss_bbox'' = Some bb0"
    and "map_of L ''loss_giou'' = Some gi0" and "map_of L ''cardinality_error'' = Some ca0"
    and "i < n \<Longrightarrow> map_of L (suffixed ''loss_ce'' i) = Some (ce i)"
    and "i < n \<Longrightarrow> map_of L (suffixed ''loss_bbox'' i) = Some (bb i)"
    and "i < n \<Longrightarrow> map_of L (suffixed ''loss_giou'' i) = Some (gi i)"
    and "i < n \<Longrightarrow> map_of L (suffixed ''cardinality_error'' i) = Some (ca i)"
proof -
  have b: "set (layer_row (\<lambda>k. k) (ce0, bb0, gi0, ca0)) \<subseteq> set L"
    unfolding L by simp
  show "map_of L ''loss_ce'' = Some ce0" "map_of L ''loss_bbox'' = Some bb0"
    "map_of L ''loss_giou'' = Some gi0" "map_of L ''cardinality_error'' = Some ca0"
    using b by (simp_all only: map_of_eq_Some_iff [OF dist]) (simp_all add: layer_row_def)
  assume i: "i < n"
  then have "i \<in> set [0..<n]" by simp
  then have r: "set (layer_row (\<lambda>k. suffixed k i) (ce i, bb i, gi i, ca i)) \<subseteq> set L"
    unfolding L by (simp only: set_append set_concat set_map) blast
  show "map_of L (suffixed ''loss_ce'' i) = Some (ce i)"
    "map_of L (suffixed ''loss_bbox'' i) = Some (bb i)"
    "map_of L (suffixed ''loss_giou'' i) = Some (gi i)"
    "map_of L (suffixed ''cardinality_error'' i) = Some (ca i)"
    using r by (simp_all only: map_of_eq_Some_iff [OF dist]) (simp_all add: layer_row_def)
qed

text \<open>
  C4 (amended). When \<open>SetCriterion.forward\<close> returns the dictionary \<open>L\<close> for outputs that
  contain auxiliary outputs, then for every intermediate layer \<open>i\<close> the matcher has been
  run on that layer's outputs, every requested loss except \<open>masks\<close> has been computed for
  that layer against this matching with the same \<open>num_boxes\<close>, and each of its entries
  is stored in \<open>L\<close> under its key suffixed with \<open>_i\<close>; no mask or dice loss is stored for
  an intermediate layer. For the losses labels, boxes and cardinality, with the auxiliary
  loss configured and one auxiliary output per intermediate decoder layer, the total loss
  of the model is the sum of the terms \<open>loss_ce\<close>, \<open>loss_bbox\<close> and \<open>loss_giou\<close> of the
  last layer and of every intermediate layer, each multiplied by its configured weight
  (1, the bbox coefficient, the giou coefficient); the terms \<open>cardinality_error\<close>, which
  are in \<open>L\<close> too, have no weight and are not part of the sum.
\<close>

theorem C4_auxiliary_losses:
  assumes fw: "SetCriterion_forward K crit outputs targets = Inr L"
      and aux: "auxiliary_outputs outputs = Some auxs"
  shows "(\<forall>i < length auxs.
            \<exists>ind. matcher crit (auxs ! i) targets = Inr ind
              \<and> (\<forall>loss \<in> set (losses crit). loss \<noteq> ''masks'' \<longrightarrow>
                    (\<exists>d. get_loss K crit loss (auxs ! i) targets ind (num_boxes_of targets) = Inr d
                        \<and> (\<forall>kv \<in> set d. map_of L (suffixed (fst kv) i) = Some (snd kv))))
              \<and> map_of L (suffixed ''loss_mask'' i) = None
              \<and> map_of L (suffixed ''loss_dice'' i) = None)
       \<and> (losses crit = [''labels'', ''boxes'', ''cardinality''] \<and> auxiliary_loss config
            \<and> nat (decoder_layers config - 1) = length auxs \<longrightarrow>
          (\<exists>ce0 bb0 gi0 ca0 ce bb gi.
              map_of L ''loss_ce'' = Some ce0 \<and> map_of L ''loss_bbox'' = Some bb0
            \<and> map_of L ''loss_giou'' = Some gi0 \<and> map_of L ''cardinality_error'' = Some ca0
            \<and> (\<forall>i < length auxs. map_of L (suffixed ''loss_ce'' i) = Some (ce i)
                  \<and> map_of L (suffixed ''loss_bbox'' i) = Some (bb i)
                  \<and> map_of L (suffixed ''loss_giou'' i) = Some (gi i))
            \<and> total_loss config L
                = tsum ([tscale ce0 1, tscale bb0 (bbox_loss_coefficient config),
                         tscale gi0 (giou_loss_coefficient config)]
                        @ concat (map (\<lambda>i. [tscale (ce i) 1,
                                             tscale (bb i) (bbox_loss_coefficient config),
                                             tscale (gi i) (giou_loss_coefficient config)])
                                    [0..<length auxs]))))"
proof (intro conjI allI impI)
  fix i assume i: "i < length auxs"
  from forward_Inr(3) [OF fw aux i] obtain ind where
    ind: "matcher crit (auxs ! i) targets = Inr ind"
    and ok: "\<forall>loss \<in> set (losses crit). loss \<noteq> ''masks'' \<longrightarrow>
               (\<exists>d. get_loss K crit loss (auxs ! i) targets ind (num_boxes_of targets) = Inr d)"
    by blast
  have "\<exists>d. get_loss K crit loss (auxs ! i) targets ind (num_boxes_of targets) = Inr d
            \<and> (\<forall>kv \<in> set d. map_of L (suffixed (fst kv) i) = Some (snd kv))"
    if l: "loss \<in> set (losses crit)" and nm: "loss \<noteq> ''masks''" for loss
  proof -
    from ok l nm obtain d where
      d: "get_loss K crit loss (auxs ! i) targets ind (num_boxes_of targets) = Inr d" by blast
    have "map_of L (suffixed (fst kv) i) = Some (snd kv)" if "kv \<in> set d" for kv
      by (rule aux_entry [OF fw aux i l nm ind d]) (use that in simp)
    then show ?thesis using d by blast
  qed
  moreover have "map_of L (suffixed ''loss_mask'' i) = None"
    by (rule mask_absent [OF fw]) simp
  moreover have "map_of L (suffixed ''loss_dice'' i) = None"
    by (rule mask_absent [OF fw]) simp
  ultimately show "\<exists>ind. matcher crit (auxs ! i) targets = Inr ind
              \<and> (\<forall>loss \<in> set (losses crit). loss \<noteq> ''masks'' \<longrightarrow>
                    (\<exists>d. get_loss K crit loss (auxs ! i) targets ind (num_boxes_of targets) = Inr d
                        \<and> (\<forall>kv \<in> set d. map_of L (suffixed (fst kv) i) = Some (snd kv))))
              \<and> map_of L (suffixed ''loss_mask'' i) = None
              \<and> map_of L (suffixed ''loss_dice'' i) = None"
    using ind by blast
next
  assume h: "losses crit = [''labels'', ''boxes'', ''cardinality''] \<and> auxiliary_loss config
            \<and> nat (decoder_layers config - 1) = length auxs"
  from forward_three(1) [OF fw _ aux] h obtain t0 T where
    L0: "L = layer_row (\<lambda>k. k) t0
             @ concat (map (\<lambda>j. layer_row (\<lambda>k. suffixed k j) (T j)) [0..<length auxs])"
    by blast
  have dist: "distinct (map fst L)" using forward_three(2) [OF fw _ aux] h by blast
  obtain ce0 bb0 gi0 ca0 where t0: "t0 = (ce0, bb0, gi0, ca0)" by (cases t0)
  define ce where "ce = (\<lambda>j. fst (T j))"
  define bb where "bb = (\<lambda>j. fst (snd (T j)))"
  define gi where "gi = (\<lambda>j. fst (snd (snd (T j))))"
  define ca where "ca = (\<lambda>j. snd (snd (snd (T j))))"
  have T: "T = (\<lambda>j. (ce j, bb j, gi j, ca j))"
    by (simp add: ce_def bb_def gi_def ca_def)
  have L: "L = layer_row (\<lambda>k. k) (ce0, bb0, gi0, ca0)
             @ concat (map (\<lambda>j. layer_row (\<lambda>k. suffixed k j) (ce j, bb j, gi j, ca j)) [0..<length auxs])"
    using L0 unfolding t0 by (subst (asm) T) simp
  note lk = lookup_three [OF L dist]
  have tot: "total_loss config L
       = tsum ([tscale ce0 1, tscale bb0 (bbox_loss_coefficient config),
                tscale gi0 (giou_loss_coefficient config)]
               @ concat (map (\<lambda>j. [tscale (ce j) 1, tscale (bb j) (bbox_loss_coefficient config),
                                     tscale (gi j) (giou_loss_coefficient config)]) [0..<length auxs]))"
    by (rule total_three [OF L]) (use h in simp_all)
  show "\<exists>ce0 bb0 gi0 ca0 ce bb gi.
              map_of L ''loss_ce'' = Some ce0 \<and> map_of L ''loss_bbox'' = Some bb0
            \<and> map_of L ''loss_giou'' = Some gi0 \<and> map_of L ''cardinality_error'' = Some ca0
            \<and> (\<forall>i < length auxs. map_of L (suffixed ''loss_ce'' i) = Some (ce i)
                  \<and> map_of L (suffixed ''loss_bbox'' i) = Some (bb i)
                  \<and> map_of L (suffixed ''loss_giou'' i) = Some (gi i))
            \<and> total_loss config L
                = tsum ([tscale ce0 1, tscale bb0 (bbox_loss_coefficient config),
                         tscale gi0 (giou_loss_coefficient config)]
                        @ concat (map (\<lambda>i. [tscale (ce i) 1,
                                             tscale (bb i) (bbox_loss_coefficient config),
                                             tscale (gi i) (giou_loss_coefficient config)])
                                    [0..<length auxs]))"
    using lk(1-7) tot by blast
qed

lemma matcher_outputs2:
  "HungarianMatcher_forward matcher1 diagonal_solver outputs2 targets1 = Inr [([0], [0])]"
  by (simp add: HungarianMatcher_forward_def outputs2_def targets1_def softmax_def in_range_def
      generalized_box_iou_def cost_matrix_def cost_entry_def blocks_def diagonal_solver_def
      tdiv_def tsub_def clamp_min_def Let_def)

lemma matcher_empty:
  "HungarianMatcher_forward matcher1 diagonal_solver outputs2 targets_empty = Inr [([], [])]"
  by (simp add: HungarianMatcher_forward_def outputs2_def targets_empty_def softmax_def in_range_def
      generalized_box_iou_def cost_matrix_def cost_entry_def blocks_def diagonal_solver_def
      Let_def)

lemma suffixed_0: "suffixed k 0 = k @ ''_0''"
  by (simp add: suffixed_def str_nat.simps [of 0] digit_def)

lemma num_boxes_targets1: "num_boxes_of targets1 = 1" "num_boxes_of targets_empty = 1"
  by (simp_all add: num_boxes_of_def targets1_def targets_empty_def clamp_min_def)

lemma get_loss_outputs2:
  "get_loss kernels0 criterion0 ''labels'' outputs2 targets1 [([0], [0])] 1 = Inr [(''loss_ce'', Some 1)]"
  "get_loss kernels0 criterion0 ''boxes'' outputs2 targets1 [([0], [0])] 1
     = Inr [(''loss_bbox'', Some (1 / 2)), (''loss_giou'', Some (3 / 4))]"
  "get_loss kernels0 criterion0 ''cardinality'' outputs2 targets1 [([0], [0])] 1
     = Inr [(''cardinality_error'', Some 1)]"
    apply (simp add: get_loss_def loss_labels_def get_src_permutation_idx_def select_targets_def
      index_rows_def kernels0_def criterion0_def outputs2_def targets1_def)
   apply (simp add: get_loss_def loss_boxes_def get_src_permutation_idx_def select_targets_def
      index_rows_def outputs2_def targets1_def l1_sum_def giou_loss_sum_def
      generalized_box_iou_def tsum_def tadd_def tdivide_def tdiv_def tsub_def clamp_min_def Let_def)
  apply (simp add: get_loss_def loss_cardinality_def outputs2_def targets1_def tdiv_def Let_def)
  done

lemma forward0:
  "SetCriterion_forward kernels0 criterion0 criterion_outputs0 targets1 = Inr loss_dict0"
proof -
  have m: "matcher criterion0 outputs2 targets1 = Inr [([0], [0])]"
    by (simp add: criterion0_def matcher_outputs2)
  have l: "losses criterion0 = [''labels'', ''boxes'', ''cardinality'']"
    by (simp add: criterion0_def)
  show ?thesis
    by (simp add: SetCriterion_forward_def criterion_outputs0_def m l num_boxes_targets1
        get_loss_outputs2 dict_update_def suffixed_0 loss_dict0_def)
qed

lemma weight_dict0:
  "weight_dict config0
     = [(''loss_ce'', 1), (''loss_bbox'', 5), (''loss_giou'', 2),
        (''loss_ce_0'', 1), (''loss_bbox_0'', 5), (''loss_giou_0'', 2)]"
  by (simp add: weight_dict_def config0_def dict_update_def suffixed_0)

text \<open>
  C4 (as stated, refuted). The claim says that the total loss is the sum of all resulting
  loss terms, each multiplied by its configured weight. The criterion of
  \<open>DetrForObjectDetection\<close> returns the terms \<open>cardinality_error\<close> and
  \<open>cardinality_error_0\<close>, here both 1, for which no weight is configured: the sum of all
  terms with their weights does not exist (KeyError), and the total of the code, 10, is
  the sum of the other six terms only.
\<close>

theorem C4_cardinality_term_unweighted:
  "SetCriterion_forward kernels0 criterion0 criterion_outputs0 targets1 = Inr loss_dict0
   \<and> map_of loss_dict0 ''cardinality_error'' = Some (Some 1)
   \<and> map_of loss_dict0 ''cardinality_error_0'' = Some (Some 1)
   \<and> map_of (weight_dict config0) ''cardinality_error'' = None
   \<and> weighted_sum_of_all config0 loss_dict0 = Inl KeyError
   \<and> total_loss config0 loss_dict0 = Some 10"
proof -
  have "weighted_sum_of_all config0 loss_dict0 = Inl KeyError"
    by (simp add: weighted_sum_of_all_def weight_dict0 loss_dict0_def tscale_def)
  moreover have "total_loss config0 loss_dict0 = Some 10"
    by (simp add: total_loss_def weight_dict0 loss_dict0_def tscale_def tsum_def tadd_def)
  moreover have "map_of loss_dict0 ''cardinality_error'' = Some (Some 1)"
    "map_of loss_dict0 ''cardinality_error_0'' = Some (Some 1)"
    "map_of (weight_dict config0) ''cardinality_error'' = None"
    by (simp_all add: loss_dict0_def weight_dict0)
  ultimately show ?thesis using forward0 by simp
qed

theorem C4_auxiliary_losses_witness:
  "SetCriterion_forward kernels0 criterion0 criterion_outputs0 targets1 = Inr loss_dict0
   \<and> auxiliary_outputs criterion_outputs0 = Some [outputs2]
   \<and> losses criterion0 = [''labels'', ''boxes'', ''cardinality''] \<and> auxiliary_loss config0
   \<and> nat (decoder_layers config0 - 1) = length [outputs2]
   \<and> map_of loss_dict0 (suffixed ''loss_mask'' 0) = None
   \<and> map_of loss_dict0 (suffixed ''loss_bbox'' 0) = Some (Some (1 / 2))
   \<and> total_loss config0 loss_dict0 = Some 10"
proof -
  have a: "auxiliary_outputs criterion_outputs0 = Some [outputs2]"
    by (simp add: criterion_outputs0_def)
  have h: "losses criterion0 = [''labels'', ''boxes'', ''cardinality'']" "auxiliary_loss config0"
    "nat (decoder_layers config0 - 1) = length [outputs2]"
    by (simp_all add: criterion0_def config0_def)
  note t = C4_auxiliary_losses [OF forward0 a, of config0]
  have "map_of loss_dict0 (suffixed ''loss_mask'' 0) = None"
    using t [THEN conjunct1, THEN spec, of 0] by auto
  moreover have "map_of loss_dict0 (suffixed ''loss_bbox'' 0) = Some (Some (1 / 2))"
    by (simp add: loss_dict0_def suffixed_0)
  moreover have "total_loss config0 loss_dict0 = Some 10"
    by (simp add: total_loss_def weight_dict0 loss_dict0_def tscale_def tsum_def tadd_def)
  ultimately show ?thesis using forward0 a h by simp
qed

lemma base_entry:
  assumes fw: "SetCriterion_forward K crit outputs targets = Inr L"
      and l: "loss \<in> set (losses crit)"
      and ind: "matcher crit (final outputs) targets = Inr ind"
      and d: "get_loss K crit loss (final outputs) targets ind (num_boxes_of targets) = Inr d"
      and kv: "(k, v) \<in> set d"
  shows "map_of L k = Some v"
proof -
  let ?items = "all_items K crit outputs targets"
  let ?g = "\<lambda>loss. dict_of (get_loss K crit loss (final outputs) targets
                (indices_of (matcher crit (final outputs) targets)) (num_boxes_of targets))"
  have dof: "?g loss = d" using ind d by (simp add: dict_of_def indices_of_def)
  have kk: "k \<in> set (keys_of loss)"
    using get_loss_keys [OF d] kv by (metis fst_conv image_eqI set_map)
  have kb: "k \<in> set base_keys" using kk keys_of_base by blast
  have "(k, v) \<in> set (?g loss)" using kv dof by simp
  then have "(k, v) \<in> set (base_items K crit (final outputs) targets)"
    unfolding base_items_def using l by (rule concat_map_mem [rotated])
  then have mem: "(k, v) \<in> set ?items" by (simp add: all_items_def)
  have uniq: "v' = v" if m: "(k, v') \<in> set ?items" for v'
  proof (cases "(k, v') \<in> set (base_items K crit (final outputs) targets)")
    case True
    then obtain loss' where l': "loss' \<in> set (losses crit)" and m': "(k, v') \<in> set (?g loss')"
      unfolding base_items_def by (simp only: set_concat set_map) blast
    have "k \<in> set (keys_of loss')" by (rule dict_of_keys [OF m'])
    then have "loss' = loss" using kk by (rule keys_of_disjoint)
    then have "(k, v') \<in> set (?g loss)" using m' by simp
    moreover have "(k, v) \<in> set (?g loss)" using kv dof by simp
    ultimately show ?thesis by (rule dict_of_unique)
  next
    case False
    from all_items_mem [OF m] have "k \<in> set base_keys
       \<or> (\<exists>auxs j loss k'. auxiliary_outputs outputs = Some auxs \<and> j < length auxs
            \<and> loss \<in> set (losses crit) \<and> loss \<noteq> ''masks'' \<and> k = suffixed k' j
            \<and> (k', v') \<in> set (dict_of (get_loss K crit loss (auxs ! j) targets
                    (indices_of (matcher crit (auxs ! j) targets)) (num_boxes_of targets))))" .
    have "(k, v') \<in> set (case auxiliary_outputs outputs of None \<Rightarrow> []
        | Some auxs \<Rightarrow> concat (map (\<lambda>j. aux_items K crit targets (num_boxes_of targets) j (auxs ! j))
                      [0..<length auxs]))"
      using m False by (simp add: all_items_def)
    then obtain auxs j where "(k, v') \<in> set (aux_items K crit targets (num_boxes_of targets) j (auxs ! j))"
      by (cases "auxiliary_outputs outputs") auto
    then obtain k' where "k = suffixed k' j" by (rule aux_items_mem)
    then show ?thesis using suffixed_not_base [OF kb] by blast
  qed
  have "map_of (rev ?items) k = Some v"
  proof (rule map_of_unique)
    show "(k, v) \<in> set (rev ?items)" using mem by (simp only: set_rev)
    show "\<forall>v'. (k, v') \<in> set (rev ?items) \<longrightarrow> v' = v"
    proof (intro allI impI)
      fix v' assume "(k, v') \<in> set (rev ?items)"
      then have "(k, v') \<in> set ?items" by (simp only: set_rev)
      then show "v' = v" by (rule uniq)
    qed
  qed
  then show ?thesis using map_of_forward [OF fw] by simp
qed

lemma num_boxes_ge: "1 \<le> num_boxes_of targets"
  by (simp add: num_boxes_of_def clamp_min_def)

lemma loss_boxes_shape:
  assumes "loss_boxes outputs targets indices nb = Inr d"
  shows "\<exists>src_boxes target_boxes g. giou_loss_sum src_boxes target_boxes = Inr g
           \<and> d = [(''loss_bbox'', tdiv (l1_sum src_boxes target_boxes) nb),
                  (''loss_giou'', tdivide g nb)]"
  using assms by (auto simp: loss_boxes_def Let_def split: sum.splits if_splits)

lemma divide_by_num_boxes:
  "tdiv x (num_boxes_of targets) = Some (x / num_boxes_of targets)"
  "tdivide g (num_boxes_of targets) = map_option (\<lambda>s. s / num_boxes_of targets) g"
  using num_boxes_ge [of targets] by (auto simp: tdiv_def tdivide_def split: option.splits)

text \<open>
  C7. The normalization count \<open>num_boxes\<close> of \<open>SetCriterion.forward\<close> is the total number
  of class labels of the batch, which is the total number of target boxes when every
  target has as many labels as boxes, clamped below at 1. It is at least 1 for every
  list of targets, so a division by it is never a division by zero; and when \<open>forward\<close>
  returns with the box loss requested, \<open>loss_bbox\<close> is the L1 sum divided by this count
  and \<open>loss_giou\<close> the GIoU sum divided by it.
\<close>

theorem C7_num_boxes_clamped:
  "num_boxes_of targets = max (real (sum_list (map (\<lambda>t. length (class_labels t)) targets))) 1
   \<and> 1 \<le> num_boxes_of targets
   \<and> tdiv x (num_boxes_of targets) = Some (x / num_boxes_of targets)
   \<and> (list_all (\<lambda>t. length (class_labels t) = length (boxes t)) targets \<longrightarrow>
        num_boxes_of targets = max (real (sum_list (map (\<lambda>t. length (boxes t)) targets))) 1)
   \<and> (SetCriterion_forward K crit outputs targets = Inr L \<and> ''boxes'' \<in> set (losses crit) \<longrightarrow>
        (\<exists>ind src_boxes target_boxes g.
            matcher crit (final outputs) targets = Inr ind
          \<and> giou_loss_sum src_boxes target_boxes = Inr g
          \<and> loss_boxes (final outputs) targets ind (num_boxes_of targets)
              = Inr [(''loss_bbox'', Some (l1_sum src_boxes target_boxes / num_boxes_of targets)),
                     (''loss_giou'', map_option (\<lambda>s. s / num_boxes_of targets) g)]
          \<and> map_of L ''loss_bbox''
              = Some (Some (l1_sum src_boxes target_boxes / num_boxes_of targets))
          \<and> map_of L ''loss_giou'' = Some (map_option (\<lambda>s. s / num_boxes_of targets) g)))"
proof (intro conjI impI)
  show "num_boxes_of targets = max (real (sum_list (map (\<lambda>t. length (class_labels t)) targets))) 1"
    by (simp add: num_boxes_of_def clamp_min_def)
  show "1 \<le> num_boxes_of targets" by (rule num_boxes_ge)
  show "tdiv x (num_boxes_of targets) = Some (x / num_boxes_of targets)"
    by (rule divide_by_num_boxes)
next
  assume "list_all (\<lambda>t. length (class_labels t) = length (boxes t)) targets"
  then have meq: "map (\<lambda>t. length (class_labels t)) targets = map (\<lambda>t. length (boxes t)) targets"
    by (simp add: list_all_iff)
  show "num_boxes_of targets = max (real (sum_list (map (\<lambda>t. length (boxes t)) targets))) 1"
    by (simp only: num_boxes_of_def clamp_min_def meq)
next
  let ?nb = "num_boxes_of targets"
  assume h: "SetCriterion_forward K crit outputs targets = Inr L \<and> ''boxes'' \<in> set (losses crit)"
  then have fw: "SetCriterion_forward K crit outputs targets = Inr L"
    and b: "''boxes'' \<in> set (losses crit)" by simp_all
  from forward_Inr(2) [OF fw] b obtain ind d where
    ind: "matcher crit (final outputs) targets = Inr ind"
    and d: "get_loss K crit ''boxes'' (final outputs) targets ind ?nb = Inr d"
    by blast
  have lb: "loss_boxes (final outputs) targets ind ?nb = Inr d"
    using d by (simp add: get_loss_def)
  from loss_boxes_shape [OF lb] obtain src_boxes target_boxes g where
    g: "giou_loss_sum src_boxes target_boxes = Inr g"
    and d': "d = [(''loss_bbox'', tdiv (l1_sum src_boxes target_boxes) ?nb),
                  (''loss_giou'', tdivide g ?nb)]"
    by blast
  have d'': "d = [(''loss_bbox'', Some (l1_sum src_boxes target_boxes / ?nb)),
                  (''loss_giou'', map_option (\<lambda>s. s / ?nb) g)]"
    using d' by (simp only: divide_by_num_boxes)
  have "map_of L ''loss_bbox'' = Some (Some (l1_sum src_boxes target_boxes / ?nb))"
    by (rule base_entry [OF fw b ind d]) (simp add: d'')
  moreover have "map_of L ''loss_giou'' = Some (map_option (\<lambda>s. s / ?nb) g)"
    by (rule base_entry [OF fw b ind d]) (simp add: d'')
  ultimately show "\<exists>ind src_boxes target_boxes g.
            matcher crit (final outputs) targets = Inr ind
          \<and> giou_loss_sum src_boxes target_boxes = Inr g
          \<and> loss_boxes (final outputs) targets ind ?nb
              = Inr [(''loss_bbox'', Some (l1_sum src_boxes target_boxes / ?nb)),
                     (''loss_giou'', map_option (\<lambda>s. s / ?nb) g)]
          \<and> map_of L ''loss_bbox'' = Some (Some (l1_sum src_boxes target_boxes / ?nb))
          \<and> map_of L ''loss_giou'' = Some (map_option (\<lambda>s. s / ?nb) g)"
    using ind g lb d'' by blast
qed

lemma forward_empty:
  "SetCriterion_forward kernels0 criterion0 criterion_outputs1 targets_empty
     = Inr [(''loss_ce'', Some 1), (''loss_bbox'', Some 0), (''loss_giou'', Some 0),
            (''cardinality_error'', Some 2)]"
proof -
  have m: "matcher criterion0 outputs2 targets_empty = Inr [([], [])]"
    by (simp add: criterion0_def matcher_empty)
  have l: "losses criterion0 = [''labels'', ''boxes'', ''cardinality'']"
    by (simp add: criterion0_def)
  have g: "get_loss kernels0 criterion0 ''labels'' outputs2 targets_empty [([], [])] 1
             = Inr [(''loss_ce'', Some 1)]"
    "get_loss kernels0 criterion0 ''boxes'' outputs2 targets_empty [([], [])] 1
       = Inr [(''loss_bbox'', Some 0), (''loss_giou'', Some 0)]"
    "get_loss kernels0 criterion0 ''cardinality'' outputs2 targets_empty [([], [])] 1
       = Inr [(''cardinality_error'', Some 2)]"
      apply (simp add: get_loss_def loss_labels_def get_src_permutation_idx_def select_targets_def
        index_rows_def kernels0_def criterion0_def outputs2_def targets_empty_def)
     apply (simp add: get_loss_def loss_boxes_def get_src_permutation_idx_def select_targets_def
        index_rows_def outputs2_def targets_empty_def l1_sum_def giou_loss_sum_def
        generalized_box_iou_def tsum_def tadd_def tdivide_def tdiv_def tsub_def Let_def)
    apply (simp add: get_loss_def loss_cardinality_def outputs2_def targets_empty_def tdiv_def Let_def)
    done
  show ?thesis
    by (simp add: SetCriterion_forward_def criterion_outputs1_def m l num_boxes_targets1 g
        dict_update_def)
qed

theorem C7_num_boxes_clamped_witness:
  "list_all (\<lambda>t. length (class_labels t) = length (boxes t)) targets_empty
   \<and> SetCriterion_forward kernels0 criterion0 criterion_outputs1 targets_empty
        = Inr [(''loss_ce'', Some 1), (''loss_bbox'', Some 0), (''loss_giou'', Some 0),
               (''cardinality_error'', Some 2)]
   \<and> ''boxes'' \<in> set (losses criterion0)
   \<and> sum_list (map (\<lambda>t. length (boxes t)) targets_empty) = 0
   \<and> num_boxes_of targets_empty = 1
   \<and> tdiv 0 (num_boxes_of targets_empty) = Some 0"
proof -
  have w: "list_all (\<lambda>t. length (class_labels t) = length (boxes t)) targets_empty"
    "sum_list (map (\<lambda>t. length (boxes t)) targets_empty) = 0"
    by (simp_all add: targets_empty_def)
  have b: "''boxes'' \<in> set (losses criterion0)" by (simp add: criterion0_def)
  have t: "tdiv 0 (num_boxes_of targets_empty) = Some 0"
    using C7_num_boxes_clamped [of targets_empty 0 kernels0 criterion0 criterion_outputs1
        "[(''loss_ce'', Some 1), (''loss_bbox'', Some 0), (''loss_giou'', Some 0),
               (''cardinality_error'', Some 2)]", THEN conjunct2, THEN conjunct2, THEN conjunct1]
    by simp
  show ?thesis
    using w b forward_empty num_boxes_targets1(2) t by (simp add: tdiv_def)
qed

end
